theory Spec2Isabelle
  imports Main "HOL-Library.AList" "HOL-Library.Sublist" "HOL-Library.Char_ord" "HOL-Library.List_Lexorder"
begin

section \<open>Syntax trees of Go source files\<close>

text \<open>
  The augmentation engine works on \<^verbatim>\<open>go/ast\<close> trees. Only the parts of a tree that the
  engine reads or writes are kept apart; every other subtree (an expression, a type, a
  parameter list, a function body) is an opaque \<open>node\<close> that carries its source text, the
  package qualifiers \<open>X\<close> of its selector expressions \<open>X.Sel\<close> whose identifier is not
  resolved inside the file (\<^verbatim>\<open>id.Obj == nil\<close>), and its comment groups.

  Slots that the code sets to \<^verbatim>\<open>nil\<close> before compacting are \<open>option\<close> values.
  Import specifications are shared between \<^verbatim>\<open>file.Imports\<close> and the import declarations,
  and the code mutates them through either path, so they live in a store of the file
  and both places hold their address.
\<close>

type_synonym ident = string
type_synonym comment_group = "string list"
type_synonym addr = nat

datatype node = Node (src: string) (sels: "ident list") (cmts: "comment_group list")

datatype token = IMPORT | CONST | TYPE' | VAR

datatype recv_type = RIdent ident | RStar recv_type | RIndex recv_type node

record ImportSpec =
  is_Doc :: "comment_group option"
  is_Name :: "ident option"
  is_Path :: string
  is_Comment :: "comment_group option"

record TypeSpec =
  ts_Doc :: "comment_group option"
  ts_Name :: ident
  ts_TypeParams :: "node option"
  ts_Type :: node
  ts_Comment :: "comment_group option"

record ValueSpec =
  vs_Doc :: "comment_group option"
  vs_Names :: "ident option list"
  vs_Type :: "node option"
  vs_Values :: "node option list"
  vs_Comment :: "comment_group option"

datatype spec = SImport addr | SType TypeSpec | SValue ValueSpec

record FuncDecl =
  fd_Doc :: "comment_group option"
  fd_Recv :: "recv_type option"
  fd_Name :: ident
  fd_TypeParams :: "node option"
  fd_Params :: node
  fd_Results :: "node option"
  fd_Body :: "node option"

record GenDecl =
  gd_Doc :: "comment_group option"
  gd_Tok :: token
  gd_Specs :: "spec option list"

datatype decl = DFunc FuncDecl | DGen GenDecl

record File =
  f_Doc :: "comment_group option"
  f_Name :: ident
  f_Decls :: "decl option list"
  f_Imports :: "addr option list"
  f_Comments :: "comment_group list"
  f_heap :: "addr \<Rightarrow> ImportSpec option"

fun optl :: "'a option \<Rightarrow> 'a list" where
  "optl None = []"
| "optl (Some x) = [x]"

fun somes :: "'a option list \<Rightarrow> 'a list" where
  "somes [] = []"
| "somes (None # xs) = somes xs"
| "somes (Some x # xs) = x # somes xs"

fun optNodeSels :: "node option \<Rightarrow> ident list" where
  "optNodeSels None = []"
| "optNodeSels (Some n) = sels n"

fun optNodeCmts :: "node option \<Rightarrow> comment_group list" where
  "optNodeCmts None = []"
| "optNodeCmts (Some n) = cmts n"

fun recvSels :: "recv_type \<Rightarrow> ident list" where
  "recvSels (RIdent n) = []"
| "recvSels (RStar r) = recvSels r"
| "recvSels (RIndex r ix) = recvSels r @ sels ix"

fun recvCmts :: "recv_type \<Rightarrow> comment_group list" where
  "recvCmts (RIdent n) = []"
| "recvCmts (RStar r) = recvCmts r"
| "recvCmts (RIndex r ix) = recvCmts r @ cmts ix"

text \<open>What \<^verbatim>\<open>ast.Inspect\<close> meets when it walks a file: the selector qualifiers and the comment groups.\<close>

fun specSelectors :: "spec \<Rightarrow> ident list" where
  "specSelectors (SImport a) = []"
| "specSelectors (SType t) = optNodeSels (ts_TypeParams t) @ sels (ts_Type t)"
| "specSelectors (SValue v) = optNodeSels (vs_Type v) @ concat (map sels (somes (vs_Values v)))"

fun declSelectors :: "decl \<Rightarrow> ident list" where
  "declSelectors (DFunc d) =
     (case fd_Recv d of None \<Rightarrow> [] | Some r \<Rightarrow> recvSels r) @ optNodeSels (fd_TypeParams d)
       @ sels (fd_Params d) @ optNodeSels (fd_Results d) @ optNodeSels (fd_Body d)"
| "declSelectors (DGen g) = concat (map specSelectors (somes (gd_Specs g)))"

definition fileSelectors :: "File \<Rightarrow> ident list" where
  "fileSelectors f = concat (map declSelectors (somes (f_Decls f)))"

fun specComments :: "(addr \<Rightarrow> ImportSpec option) \<Rightarrow> spec \<Rightarrow> comment_group list" where
  "specComments h (SImport a) =
     (case h a of None \<Rightarrow> [] | Some i \<Rightarrow> optl (is_Doc i) @ optl (is_Comment i))"
| "specComments h (SType t) =
     optl (ts_Doc t) @ optNodeCmts (ts_TypeParams t) @ cmts (ts_Type t) @ optl (ts_Comment t)"
| "specComments h (SValue v) =
     optl (vs_Doc v) @ optNodeCmts (vs_Type v) @ concat (map cmts (somes (vs_Values v)))
       @ optl (vs_Comment v)"

fun declComments :: "(addr \<Rightarrow> ImportSpec option) \<Rightarrow> decl \<Rightarrow> comment_group list" where
  "declComments h (DFunc d) =
     optl (fd_Doc d) @ (case fd_Recv d of None \<Rightarrow> [] | Some r \<Rightarrow> recvCmts r)
       @ optNodeCmts (fd_TypeParams d) @ cmts (fd_Params d) @ optNodeCmts (fd_Results d)
       @ optNodeCmts (fd_Body d)"
| "declComments h (DGen g) = optl (gd_Doc g) @ concat (map (specComments h) (somes (gd_Specs g)))"

definition walkComments :: "File \<Rightarrow> comment_group list" where
  "walkComments f = optl (f_Doc f) @ concat (map (declComments (f_heap f)) (somes (f_Decls f)))"

section \<open>Helpers of the \<^verbatim>\<open>astutil\<close> package\<close>

text \<open>
  Modelled from the spec: the package \<^verbatim>\<open>compiler/astutil\<close> is not among the sources. Its
  functions \<^verbatim>\<open>FuncKey\<close>, \<^verbatim>\<open>FuncReceiverKey\<close>, \<^verbatim>\<open>KeepOriginal\<close>, \<^verbatim>\<open>Purge\<close>,
  \<^verbatim>\<open>OverrideSignature\<close>, \<^verbatim>\<open>ImportName\<close>, \<^verbatim>\<open>HasDirectivePrefix\<close> and \<^verbatim>\<open>Squeeze\<close> are
  written from what the specification and the doc comments of their callers say: a
  declaration identity is the receiver type and the selector for a method and the bare
  name otherwise; a directive is a comment \<^verbatim>\<open>//gopherjs:action\<close> on the declaration; the
  name of an import is its alias or the last element of its path, and empty for a dot or
  blank import; compaction removes the nil slots and keeps the order.
\<close>

fun FuncReceiverKeyOf :: "recv_type \<Rightarrow> string" where
  "FuncReceiverKeyOf (RIdent n) = n"
| "FuncReceiverKeyOf (RStar r) = FuncReceiverKeyOf r"
| "FuncReceiverKeyOf (RIndex r ix) = FuncReceiverKeyOf r"

definition FuncReceiverKey :: "FuncDecl \<Rightarrow> string" where
  "FuncReceiverKey d = (case fd_Recv d of None \<Rightarrow> [] | Some r \<Rightarrow> FuncReceiverKeyOf r)"

definition FuncKey :: "FuncDecl \<Rightarrow> string" where
  "FuncKey d =
     (if FuncReceiverKey d \<noteq> [] then FuncReceiverKey d @ ''.'' @ fd_Name d else fd_Name d)"

definition hasDirective :: "comment_group list \<Rightarrow> string \<Rightarrow> bool" where
  "hasDirective cgs action = (''//gopherjs:'' @ action \<in> set (concat cgs))"

definition KeepOriginal :: "FuncDecl \<Rightarrow> bool" where
  "KeepOriginal d = hasDirective (optl (fd_Doc d)) ''keep-original''"

definition OverrideSignature :: "FuncDecl \<Rightarrow> bool" where
  "OverrideSignature d = hasDirective (optl (fd_Doc d)) ''override-signature''"

fun PurgeDecl :: "decl \<Rightarrow> bool" where
  "PurgeDecl (DFunc d) = hasDirective (optl (fd_Doc d)) ''purge''"
| "PurgeDecl (DGen g) = hasDirective (optl (gd_Doc g)) ''purge''"

fun PurgeSpec :: "(addr \<Rightarrow> ImportSpec option) \<Rightarrow> spec \<Rightarrow> bool" where
  "PurgeSpec h (SImport a) =
     (case h a of None \<Rightarrow> False
      | Some i \<Rightarrow> hasDirective (optl (is_Doc i) @ optl (is_Comment i)) ''purge'')"
| "PurgeSpec h (SType t) = hasDirective (optl (ts_Doc t) @ optl (ts_Comment t)) ''purge''"
| "PurgeSpec h (SValue v) = hasDirective (optl (vs_Doc v) @ optl (vs_Comment v)) ''purge''"

definition HasDirectivePrefix :: "File \<Rightarrow> string \<Rightarrow> bool" where
  "HasDirectivePrefix f p = (\<exists>c \<in> set (concat (f_Comments f)). prefix p c)"

fun Squeeze :: "'a option list \<Rightarrow> 'a option list" where
  "Squeeze [] = []"
| "Squeeze (None # xs) = Squeeze xs"
| "Squeeze (Some x # xs) = Some x # Squeeze xs"

text \<open>
  \<^verbatim>\<open>strconv.Unquote\<close> and \<^verbatim>\<open>path.Base\<close> of Go's library, for the literals an import path is
  written with: a string between two double quotes or two back quotes, without escape
  sequences. The callers drop the error, so a literal that is not quoted yields the
  empty string.
\<close>

definition Unquote :: "string \<Rightarrow> string" where
  "Unquote s =
     (if 2 \<le> length s \<and> hd s = last s \<and> (hd s = CHR 0x22 \<or> hd s = CHR 0x60)
      then butlast (tl s) else [])"

definition Quote :: "string \<Rightarrow> string" where
  "Quote s = CHR 0x22 # s @ [CHR 0x22]"

fun stripSlashes :: "string \<Rightarrow> string" where
  "stripSlashes [] = []"
| "stripSlashes (c # cs) = (if c = CHR ''/'' then stripSlashes cs else c # cs)"

definition pathBase :: "string \<Rightarrow> string" where
  "pathBase p =
     (if p = [] then ''.''
      else let q = rev (stripSlashes (rev p))
           in if q = [] then ''/'' else rev (takeWhile (\<lambda>c. c \<noteq> CHR ''/'') (rev q)))"

definition ImportName :: "ImportSpec \<Rightarrow> string" where
  "ImportName i =
     (let name = (case is_Name i of Some n \<Rightarrow> n | None \<Rightarrow> pathBase (Unquote (is_Path i)))
      in if name = ''_'' \<or> name = ''.'' \<or> name = ''/'' then [] else name)"

section \<open>Finalizing removals and pruning imports\<close>

fun finalizeSpec :: "spec option \<Rightarrow> spec option \<times> bool" where
  "finalizeSpec None = (None, True)"
| "finalizeSpec (Some (SValue s)) =
     (if None \<in> set (vs_Names s)
      then (let s' = s\<lparr>vs_Names := Squeeze (vs_Names s), vs_Values := Squeeze (vs_Values s)\<rparr>
            in if vs_Names s' = [] then (None, True) else (Some (SValue s'), False))
      else (Some (SValue s), False))"
| "finalizeSpec (Some sp) = (Some sp, False)"

fun finalizeDecl :: "decl option \<Rightarrow> decl option \<times> bool" where
  "finalizeDecl None = (None, True)"
| "finalizeDecl (Some (DGen d)) =
     (let rs = map finalizeSpec (gd_Specs d);
          specs = map fst rs;
          declChanged = (True \<in> set (map snd rs))
      in if declChanged
         then (let sq = Squeeze specs
               in if sq = [] then (None, True) else (Some (DGen (d\<lparr>gd_Specs := sq\<rparr>)), False))
         else (Some (DGen (d\<lparr>gd_Specs := specs\<rparr>)), False))"
| "finalizeDecl (Some (DFunc d)) = (Some (DFunc d), False)"

definition finalizeRemovals :: "File \<Rightarrow> File" where
  "finalizeRemovals f =
     (let rs = map finalizeDecl (f_Decls f);
          decls = map fst rs;
          fileChanged = (True \<in> set (map snd rs));
          f1 = f\<lparr>f_Decls := (if fileChanged then Squeeze decls else decls)\<rparr>;
          f2 = f1\<lparr>f_Imports := Squeeze (f_Imports f1)\<rparr>
      in f2\<lparr>f_Comments := walkComments (f2\<lparr>f_Comments := []\<rparr>)\<rparr>)"

fun isImportDecl :: "decl option \<Rightarrow> bool" where
  "isImportDecl (Some (DGen g)) = (gd_Tok g = IMPORT)"
| "isImportDecl d = False"

definition isOnlyImports :: "File \<Rightarrow> bool" where
  "isOnlyImports f = list_all isImportDecl (f_Decls f)"

definition importAt :: "File \<Rightarrow> nat \<Rightarrow> ImportSpec option" where
  "importAt f i =
     (if i < length (f_Imports f)
      then (case f_Imports f ! i of None \<Rightarrow> None | Some a \<Rightarrow> f_heap f a) else None)"

fun collectUnused :: "File \<Rightarrow> nat list \<Rightarrow> (string \<times> nat) list \<Rightarrow> (string \<times> nat) list" where
  "collectUnused f [] unused = unused"
| "collectUnused f (i # is) unused =
     (case importAt f i of
        None \<Rightarrow> collectUnused f is unused
      | Some spec \<Rightarrow>
          (if ImportName spec \<noteq> [] then collectUnused f is (AList.update (ImportName spec) i unused)
           else collectUnused f is unused))"

definition directiveImports :: "string \<Rightarrow> string option" where
  "directiveImports p =
     (if p = ''unsafe'' then Some ''//go:linkname ''
      else if p = ''embed'' then Some ''//go:embed '' else None)"

text \<open>
  The loop over the unused imports that keeps an import a directive needs: it renames the
  import to the blank identifier in the store and takes it out of the unused ones.
\<close>

fun keepDirectiveImports ::
  "File \<Rightarrow> (string \<times> nat) list \<Rightarrow> (string \<times> nat) list \<Rightarrow> File \<times> (string \<times> nat) list" where
  "keepDirectiveImports f [] unused = (f, unused)"
| "keepDirectiveImports f ((name, index) # rest) unused =
     (case f_Imports f ! index of
        None \<Rightarrow> keepDirectiveImports f rest unused
      | Some a \<Rightarrow>
         (case f_heap f a of
            None \<Rightarrow> keepDirectiveImports f rest unused
          | Some spec \<Rightarrow>
             (case directiveImports (Unquote (is_Path spec)) of
                None \<Rightarrow> keepDirectiveImports f rest unused
              | Some directivePrefix \<Rightarrow>
                 (if HasDirectivePrefix f directivePrefix
                  then keepDirectiveImports
                         (f\<lparr>f_heap := (f_heap f)(a \<mapsto> spec\<lparr>is_Name := Some ''_''\<rparr>)\<rparr>)
                         rest (AList.delete name unused)
                  else keepDirectiveImports f rest unused))))"

fun dropUnusedSpec :: "addr set \<Rightarrow> spec option \<Rightarrow> spec option" where
  "dropUnusedSpec isUnusedSpec (Some (SImport a)) =
     (if a \<in> isUnusedSpec then None else Some (SImport a))"
| "dropUnusedSpec isUnusedSpec sp = sp"

fun dropUnusedDecl :: "addr set \<Rightarrow> decl option \<Rightarrow> decl option" where
  "dropUnusedDecl isUnusedSpec (Some (DGen d)) =
     Some (DGen (d\<lparr>gd_Specs := map (dropUnusedSpec isUnusedSpec) (gd_Specs d)\<rparr>))"
| "dropUnusedDecl isUnusedSpec d = d"

definition pruneImports :: "File \<Rightarrow> File" where
  "pruneImports f =
     (if isOnlyImports f \<and> \<not> HasDirectivePrefix f ''//go:linkname ''
      then f\<lparr>f_Imports := [], f_Decls := []\<rparr>
      else
        (let unused0 = collectUnused f [0 ..< length (f_Imports f)] [];
             unused1 = fold AList.delete (fileSelectors f) unused0
         in if unused1 = [] then f
            else
              (let (f1, unused) = keepDirectiveImports f unused1 unused1
               in if unused = [] then f1
                  else
                    (let isUnusedSpec = set (somes (map (\<lambda>(n, i). f_Imports f1 ! i) unused));
                         f2 = f1\<lparr>f_Decls := map (dropUnusedDecl isUnusedSpec) (f_Decls f1)\<rparr>;
                         f3 = f2\<lparr>f_Imports :=
                                 fold (\<lambda>(n, i) xs. xs[i := None]) unused (f_Imports f2)\<rparr>
                     in finalizeRemovals f3))))"

section \<open>Overlays and originals\<close>

record overrideInfo =
  keepOriginal :: bool
  purgeMethods :: bool
  overrideSignature :: "FuncDecl option"

type_synonym overrides = "(string \<times> overrideInfo) list"

definition noInfo :: overrideInfo where
  "noInfo = \<lparr>keepOriginal = False, purgeMethods = False, overrideSignature = None\<rparr>"

text \<open>The body of the loop over the specifications of an overlay declaration.\<close>

fun overlaySpec ::
  "(addr \<Rightarrow> ImportSpec option) \<Rightarrow> bool \<Rightarrow> spec option \<Rightarrow> overrides
     \<Rightarrow> (spec option \<times> bool) \<times> overrides" where
  "overlaySpec h purgeDecl None ovr = ((None, False), ovr)"
| "overlaySpec h purgeDecl (Some sp) ovr =
     (let purgeSpec = (purgeDecl \<or> PurgeSpec h sp);
          ovr' = (case sp of
                    SType s \<Rightarrow> AList.update (ts_Name s) (noInfo\<lparr>purgeMethods := purgeSpec\<rparr>) ovr
                  | SValue s \<Rightarrow> fold (\<lambda>name. AList.update name noInfo) (somes (vs_Names s)) ovr
                  | SImport a \<Rightarrow> ovr)
      in if purgeSpec then ((None, True), ovr') else ((Some sp, False), ovr'))"

fun overlaySpecs ::
  "(addr \<Rightarrow> ImportSpec option) \<Rightarrow> bool \<Rightarrow> spec option list \<Rightarrow> overrides
     \<Rightarrow> (spec option list \<times> bool) \<times> overrides" where
  "overlaySpecs h purgeDecl [] ovr = (([], False), ovr)"
| "overlaySpecs h purgeDecl (sp # sps) ovr =
     (let ((sp', c1), ovr1) = overlaySpec h purgeDecl sp ovr;
          ((sps', c2), ovr2) = overlaySpecs h purgeDecl sps ovr1
      in ((sp' # sps', c1 \<or> c2), ovr2))"

text \<open>The body of the loop over the declarations of an overlay file.\<close>

fun overlayDecl ::
  "(addr \<Rightarrow> ImportSpec option) \<Rightarrow> decl option \<Rightarrow> overrides \<Rightarrow> (decl option \<times> bool) \<times> overrides" where
  "overlayDecl h None ovr = ((None, False), ovr)"
| "overlayDecl h (Some (DFunc d)) ovr =
     (let purgeDecl = (PurgeDecl (DFunc d) \<or> OverrideSignature d);
          oi = \<lparr>keepOriginal = KeepOriginal d, purgeMethods = False,
                overrideSignature = (if OverrideSignature d then Some d else None)\<rparr>;
          ovr' = AList.update (FuncKey d) oi ovr
      in if purgeDecl then ((None, True), ovr') else ((Some (DFunc d), False), ovr'))"
| "overlayDecl h (Some (DGen d)) ovr =
     (let purgeDecl = PurgeDecl (DGen d);
          ((specs, c), ovr') = overlaySpecs h purgeDecl (gd_Specs d) ovr
      in if purgeDecl then ((None, True), ovr')
         else ((Some (DGen (d\<lparr>gd_Specs := specs\<rparr>)), c), ovr'))"

fun overlayDecls ::
  "(addr \<Rightarrow> ImportSpec option) \<Rightarrow> decl option list \<Rightarrow> overrides
     \<Rightarrow> (decl option list \<times> bool) \<times> overrides" where
  "overlayDecls h [] ovr = (([], False), ovr)"
| "overlayDecls h (d # ds) ovr =
     (let ((d', c1), ovr1) = overlayDecl h d ovr;
          ((ds', c2), ovr2) = overlayDecls h ds ovr1
      in ((d' # ds', c1 \<or> c2), ovr2))"

definition augmentOverlayFile :: "File \<Rightarrow> overrides \<Rightarrow> File \<times> overrides" where
  "augmentOverlayFile f ovr =
     (let ((decls, anyChange), ovr') = overlayDecls (f_heap f) (f_Decls f) ovr;
          f' = f\<lparr>f_Decls := decls\<rparr>
      in (if anyChange then pruneImports (finalizeRemovals f') else f', ovr'))"

definition nosyncPackages :: "string list" where
  "nosyncPackages =
     [''crypto/rand'', ''encoding/gob'', ''encoding/json'', ''expvar'', ''go/token'', ''log'',
      ''math/big'', ''math/rand'', ''regexp'', ''time'']"

fun redirectSync :: "addr option list \<Rightarrow> (addr \<Rightarrow> ImportSpec option) \<Rightarrow> (addr \<Rightarrow> ImportSpec option)" where
  "redirectSync [] h = h"
| "redirectSync (None # as) h = redirectSync as h"
| "redirectSync (Some a # as) h =
     (case h a of
        None \<Rightarrow> redirectSync as h
      | Some spec \<Rightarrow>
         (if Unquote (is_Path spec) = ''sync''
          then redirectSync as
                 (h(a \<mapsto> spec\<lparr>is_Name := (case is_Name spec of None \<Rightarrow> Some ''sync'' | Some n \<Rightarrow> Some n),
                               is_Path := Quote ''github.com/gopherjs/gopherjs/nosync''\<rparr>))
          else redirectSync as h))"

definition augmentOriginalImports :: "string \<Rightarrow> File \<Rightarrow> File" where
  "augmentOriginalImports importPath f =
     (if importPath \<in> set nosyncPackages
      then f\<lparr>f_heap := redirectSync (f_Imports f) (f_heap f)\<rparr> else f)"

text \<open>The multi-value context: a name of the override map loses its name and its value.\<close>

fun removePairs ::
  "overrides \<Rightarrow> ident option list \<Rightarrow> node option list
     \<Rightarrow> (ident option list \<times> node option list) \<times> bool" where
  "removePairs ovr (n # ns) (v # vs) =
     (let ((ns', vs'), c) = removePairs ovr ns vs
      in (case n of
            None \<Rightarrow> ((None # ns', v # vs'), c)
          | Some name \<Rightarrow>
             (if map_of ovr name \<noteq> None then ((None # ns', None # vs'), True)
              else ((Some name # ns', v # vs'), c))))"
| "removePairs ovr ns vs = ((ns, vs), False)"

text \<open>The single-value context: a name of the override map becomes the blank identifier.\<close>

fun blankName :: "overrides \<Rightarrow> ident option \<Rightarrow> ident option" where
  "blankName ovr None = None"
| "blankName ovr (Some name) = (if map_of ovr name \<noteq> None then Some ''_'' else Some name)"

fun originalSpec :: "overrides \<Rightarrow> spec option \<Rightarrow> spec option \<times> bool" where
  "originalSpec ovr None = (None, False)"
| "originalSpec ovr (Some (SImport a)) = (Some (SImport a), False)"
| "originalSpec ovr (Some (SType s)) =
     (if map_of ovr (ts_Name s) \<noteq> None then (None, True) else (Some (SType s), False))"
| "originalSpec ovr (Some (SValue s)) =
     (if length (vs_Names s) = length (vs_Values s)
      then (let ((ns, vs), c) = removePairs ovr (vs_Names s) (vs_Values s)
            in (Some (SValue (s\<lparr>vs_Names := ns, vs_Values := vs\<rparr>)), c))
      else (let nameRemoved = (\<exists>name \<in> set (somes (vs_Names s)). map_of ovr name \<noteq> None);
                s' = s\<lparr>vs_Names := map (blankName ovr) (vs_Names s)\<rparr>
            in if nameRemoved \<and> list_all (\<lambda>name. name = ''_'') (somes (vs_Names s'))
               then (None, True) else (Some (SValue s'), False)))"

fun originalDecl :: "overrides \<Rightarrow> decl option \<Rightarrow> decl option \<times> bool" where
  "originalDecl ovr None = (None, False)"
| "originalDecl ovr (Some (DFunc d)) =
     (case map_of ovr (FuncKey d) of
        Some info \<Rightarrow>
          (let d1 = (if keepOriginal info
                     then d\<lparr>fd_Name := ''_gopherjs_original_'' @ fd_Name d\<rparr> else d);
               d2 = (case overrideSignature info of
                       None \<Rightarrow> d1
                     | Some overSig \<Rightarrow>
                         d1\<lparr>fd_Recv := fd_Recv overSig, fd_TypeParams := fd_TypeParams overSig,
                            fd_Params := fd_Params overSig, fd_Results := fd_Results overSig\<rparr>);
               removeFunc = (\<not> keepOriginal info \<and> overrideSignature info = None)
           in (if removeFunc then None else Some (DFunc d2), True))
      | None \<Rightarrow>
          (if FuncReceiverKey d \<noteq> []
           then (case map_of ovr (FuncReceiverKey d) of
                   Some info \<Rightarrow> (if purgeMethods info then (None, True) else (Some (DFunc d), False))
                 | None \<Rightarrow> (Some (DFunc d), False))
           else (Some (DFunc d), False)))"
| "originalDecl ovr (Some (DGen d)) =
     (let rs = map (originalSpec ovr) (gd_Specs d)
      in (Some (DGen (d\<lparr>gd_Specs := map fst rs\<rparr>)), True \<in> set (map snd rs)))"

definition augmentOriginalFile :: "File \<Rightarrow> overrides \<Rightarrow> File" where
  "augmentOriginalFile f ovr =
     (let rs = map (originalDecl ovr) (f_Decls f);
          anyChange = (True \<in> set (map snd rs));
          f' = f\<lparr>f_Decls := map fst rs\<rparr>
      in if anyChange then pruneImports (finalizeRemovals f') else f')"

fun augmentOverlayFiles :: "File list \<Rightarrow> overrides \<Rightarrow> File list \<times> overrides" where
  "augmentOverlayFiles [] ovr = ([], ovr)"
| "augmentOverlayFiles (f # fs) ovr =
     (let (f', ovr1) = augmentOverlayFile f ovr;
          (fs', ovr2) = augmentOverlayFiles fs ovr1
      in (f' # fs', ovr2))"

text \<open>
  The second half of \<^verbatim>\<open>parseAndAugment\<close>, once both sets of files are parsed: the override
  map is collected from the overlay files, its entry for \<^verbatim>\<open>init\<close> is deleted, the imports of
  the original files are redirected, and the original files are rewritten when the map is
  not empty. The merged output is the overlay files followed by the original files.
\<close>

definition Augment :: "string \<Rightarrow> File list \<Rightarrow> File list \<Rightarrow> File list" where
  "Augment importPath overlayFiles originalFiles =
     (let (overlayFiles', ovr0) = augmentOverlayFiles overlayFiles [];
          ovr = AList.delete ''init'' ovr0;
          originals1 = map (augmentOriginalImports importPath) originalFiles;
          originals2 = (if ovr \<noteq> [] then map (\<lambda>f. augmentOriginalFile f ovr) originals1
                        else originals1)
      in overlayFiles' @ originals2)"

section \<open>Package data\<close>

text \<open>
  A \<^verbatim>\<open>time.Time\<close> is the time elapsed since the zero time, so the zero value is \<open>0\<close> and
  \<^verbatim>\<open>t.After(u)\<close> is \<open>u < t\<close>.
\<close>

type_synonym time = nat

record JSFile =
  Path :: string
  ModTime :: time
  Content :: string

record Package =
  Name :: string
  ImportPath :: string
  Dir :: string
  GoFiles :: "string list"
  Imports :: "string list"

record PackageData = Package +
  JSFiles :: "JSFile list"
  IsTest :: bool
  SrcModTime :: time
  UpToDate :: bool
  IsVirtual :: bool

definition NewPackageData :: "Package \<Rightarrow> bool \<Rightarrow> JSFile list \<Rightarrow> PackageData" where
  "NewPackageData pkg isVirtual jsFiles =
     \<lparr>Name = Name pkg, ImportPath = ImportPath pkg, Dir = Dir pkg, GoFiles = GoFiles pkg,
      Imports = Imports pkg, JSFiles = jsFiles, IsTest = False, SrcModTime = 0,
      UpToDate = False, IsVirtual = isVirtual\<rparr>"

record Archive =
  a_ImportPath :: string
  a_Name :: string
  a_Code :: string
  a_IncJSCode :: string

record Position =
  Filename :: string
  Line :: nat
  Column :: nat

record ScannerError =
  Pos :: Position
  Msg :: string

datatype parse_error = ScanErr ScannerError | PlainErr string

datatype build_error =
    ImportError string
  | OpenError string
  | ErrorList "parse_error list"
  | EmbedError string
  | CompileError string
  | Errorf string
  | Panic string

datatype parse_outcome =
    OpenFailed string
  | ParseErrorList "ScannerError list"
  | ParseFailed string
  | Parsed File

record NativesPackage =
  np_Dir :: string
  np_GoFiles :: "string list"
  np_TestGoFiles :: "string list"
  np_XTestGoFiles :: "string list"
  np_JSFiles :: "JSFile list"

text \<open>
  Everything a build reads from outside the session: the file system, Go's library, the
  package resolution of the build context, the clock, and the compiler front end. The
  front end is a black box: \<open>frontEndImports\<close> are the import paths it asks its import
  callback for while it compiles a package, and \<open>frontEnd\<close> is what it returns.
\<close>

record Env =
  fp_IsAbs :: "string \<Rightarrow> bool"
  fp_Join :: "string \<Rightarrow> string \<Rightarrow> string"
  fp_Dir :: "string \<Rightarrow> string"
  fp_Clean :: "string \<Rightarrow> string"
  fp_Base :: "string \<Rightarrow> string"
  exeModTime :: time
  timeNow :: time
  hour :: time
  xctxImport :: "string \<Rightarrow> string \<Rightarrow> build_error + PackageData"
  ReadDir :: "string \<Rightarrow> (string \<times> time) list option"
  openAndParse :: "string \<Rightarrow> parse_outcome"
  nativesImport :: "string \<Rightarrow> NativesPackage option"
  overlayOpenAndParse :: "string \<Rightarrow> string \<Rightarrow> File option"
  embedFiles :: "PackageData \<Rightarrow> File list \<Rightarrow> build_error + File option"
  frontEndImports :: "string \<Rightarrow> File list \<Rightarrow> string list"
  frontEnd :: "string \<Rightarrow> File list \<Rightarrow> bool \<Rightarrow> build_error + Archive"
  ctxImportFiles :: "string list \<Rightarrow> string \<Rightarrow> build_error + Package"
  osReadFile :: "string \<Rightarrow> string + string"
  osStat :: "string \<Rightarrow> string + time"
  writeProgram :: "Archive \<Rightarrow> string \<Rightarrow> build_error option"

fun newestJS :: "JSFile list \<Rightarrow> time \<Rightarrow> time" where
  "newestJS [] newest = newest"
| "newestJS (file # files) newest =
     newestJS files (if newest < ModTime file then ModTime file else newest)"

fun newestGo :: "Env \<Rightarrow> (string \<Rightarrow> time option) \<Rightarrow> string list \<Rightarrow> time \<Rightarrow> time" where
  "newestGo env mtimes [] newest = newest"
| "newestGo env mtimes (file # files) newest =
     (case mtimes file of
        None \<Rightarrow> timeNow env
      | Some t \<Rightarrow> newestGo env mtimes files (if newest < t then t else newest))"

definition FileModTime :: "Env \<Rightarrow> PackageData \<Rightarrow> time" where
  "FileModTime env p =
     (let newest = newestJS (JSFiles p) 0
      in case ReadDir env (Dir p) of
           None \<Rightarrow> timeNow env
         | Some files \<Rightarrow>
             newestGo env (fold (\<lambda>(name, t) m. m(name \<mapsto> t)) files Map.empty) (GoFiles p) newest)"

section \<open>Parsing the files of a package\<close>

definition capErrors :: "ScannerError list \<Rightarrow> ScannerError list" where
  "capErrors list =
     (if 10 < length list
      then take 10 list @ [\<lparr>Pos = Pos (list ! 9), Msg = ''too many errors''\<rparr>]
      else list)"

fun parseOriginals ::
  "Env \<Rightarrow> PackageData \<Rightarrow> string list \<Rightarrow> File list \<Rightarrow> parse_error list
     \<Rightarrow> build_error + File list" where
  "parseOriginals env pkg [] files errList =
     (if errList \<noteq> [] then Inl (ErrorList errList) else Inr files)"
| "parseOriginals env pkg (name # names) files errList =
     (let name' = (if \<not> fp_IsAbs env name then fp_Join env (Dir pkg) name else name)
      in case openAndParse env name' of
           OpenFailed err \<Rightarrow> Inl (OpenError err)
         | ParseErrorList list \<Rightarrow>
             parseOriginals env pkg names files (errList @ map ScanErr (capErrors list))
         | ParseFailed err \<Rightarrow> parseOriginals env pkg names files (errList @ [PlainErr err])
         | Parsed file \<Rightarrow> parseOriginals env pkg names (files @ [file]) errList)"

definition parserOriginalFiles :: "Env \<Rightarrow> PackageData \<Rightarrow> build_error + File list" where
  "parserOriginalFiles env pkg = parseOriginals env pkg (GoFiles pkg) [] []"

fun parseOverlays ::
  "Env \<Rightarrow> PackageData \<Rightarrow> NativesPackage \<Rightarrow> string list \<Rightarrow> File list
     \<Rightarrow> build_error + File list" where
  "parseOverlays env pkg nativesPkg [] files = Inr files"
| "parseOverlays env pkg nativesPkg (name # names) files =
     (case overlayOpenAndParse env (fp_Join env (np_Dir nativesPkg) name)
             (fp_Join env (Dir pkg) (''gopherjs__'' @ name)) of
        None \<Rightarrow> Inl (Panic name)
      | Some file \<Rightarrow> parseOverlays env pkg nativesPkg names (files @ [file]))"

definition parseOverlayFiles ::
  "Env \<Rightarrow> PackageData \<Rightarrow> bool \<Rightarrow> build_error + JSFile list \<times> File list" where
  "parseOverlayFiles env pkg isTest =
     (let isXTest = suffix ''_test'' (ImportPath pkg);
          importPath = (if isXTest then take (length (ImportPath pkg) - 5) (ImportPath pkg)
                        else ImportPath pkg)
      in case nativesImport env importPath of
           None \<Rightarrow> Inr ([], [])
         | Some nativesPkg \<Rightarrow>
             (let names0 = (if isTest then np_GoFiles nativesPkg @ np_TestGoFiles nativesPkg
                            else np_GoFiles nativesPkg);
                  names = (if isXTest then np_XTestGoFiles nativesPkg else names0)
              in case parseOverlays env pkg nativesPkg names [] of
                   Inl err \<Rightarrow> Inl err
                 | Inr files \<Rightarrow> Inr (np_JSFiles nativesPkg, files)))"

definition parseAndAugment ::
  "Env \<Rightarrow> PackageData \<Rightarrow> bool \<Rightarrow> build_error + File list \<times> JSFile list" where
  "parseAndAugment env pkg isTest =
     (case parseOverlayFiles env pkg isTest of
        Inl err \<Rightarrow> Inl err
      | Inr (jsFiles, overlayFiles) \<Rightarrow>
          (case parserOriginalFiles env pkg of
             Inl err \<Rightarrow> Inl err
           | Inr originalFiles \<Rightarrow>
               Inr (Augment (ImportPath pkg) overlayFiles originalFiles, jsFiles)))"

section \<open>The build session\<close>

record Options =
  Verbose :: bool
  Watch :: bool
  Minify :: bool
  NoCache :: bool

text \<open>
  The session holds the archives built so far, the registry of type-checked packages
  (the name of each) and the on-disk cache. \<open>Compiled\<close> is a ghost field: the import paths
  the front end was run on, in order. \<open>Printed\<close> is what the session wrote to its output.
\<close>

record Session =
  options :: Options
  UpToDateArchives :: "string \<Rightarrow> Archive option"
  Types :: "string \<Rightarrow> string option"
  buildCache :: "string \<Rightarrow> (time \<times> Archive) option"
  Compiled :: "string list"
  Printed :: "string list"

text \<open>
  Modelled from the spec: the package \<^verbatim>\<open>build/cache\<close> is not among the sources. An entry
  of the on-disk cache is reused only if its recorded build time is strictly after the
  source modification time it is asked for; a stored entry is stamped with the time of
  the store; a loaded archive is entered into the type registry.
\<close>

definition LoadArchive ::
  "(string \<Rightarrow> (time \<times> Archive) option) \<Rightarrow> string \<Rightarrow> time \<Rightarrow> Archive option" where
  "LoadArchive cache importPath srcModTime =
     (case cache importPath of
        None \<Rightarrow> None
      | Some (buildTime, archive) \<Rightarrow> (if srcModTime < buildTime then Some archive else None))"

definition StoreArchive ::
  "(string \<Rightarrow> (time \<times> Archive) option) \<Rightarrow> Archive \<Rightarrow> time
     \<Rightarrow> (string \<Rightarrow> (time \<times> Archive) option)" where
  "StoreArchive cache archive buildTime = cache(a_ImportPath archive \<mapsto> (buildTime, archive))"

type_synonym 'a outcome = "(Session \<times> (build_error + 'a)) option"

text \<open>
  The methods of the session call each other recursively. The recursion is bounded by a
  fuel that \<open>BuildPackage\<close> consumes, and the other methods take the \<open>BuildPackage\<close> of the
  remaining fuel as \<open>build\<close>. Running out of fuel is \<open>None\<close>.
\<close>

definition buildImportPathWithSrcDir ::
  "(Session \<Rightarrow> PackageData \<Rightarrow> (PackageData \<times> Archive) outcome) \<Rightarrow> Env \<Rightarrow> Session
     \<Rightarrow> string \<Rightarrow> string \<Rightarrow> (PackageData \<times> Archive) outcome" where
  "buildImportPathWithSrcDir build env s path srcDir =
     (case xctxImport env path srcDir of
        Inl err \<Rightarrow> Some (s, Inl err)
      | Inr pkg \<Rightarrow> build s pkg)"

text \<open>The loop of \<open>BuildPackage\<close> over the imports; \<open>t\<close> is \<^verbatim>\<open>pkg.SrcModTime\<close>.\<close>

fun buildImports ::
  "(Session \<Rightarrow> PackageData \<Rightarrow> (PackageData \<times> Archive) outcome) \<Rightarrow> Env \<Rightarrow> Session
     \<Rightarrow> string \<Rightarrow> string list \<Rightarrow> time \<Rightarrow> time outcome" where
  "buildImports build env s dir [] t = Some (s, Inr t)"
| "buildImports build env s dir (importedPkgPath # rest) t =
     (if importedPkgPath = ''unsafe'' then buildImports build env s dir rest t
      else
        (case buildImportPathWithSrcDir build env s importedPkgPath dir of
           None \<Rightarrow> None
         | Some (s', Inl err) \<Rightarrow> Some (s', Inl err)
         | Some (s', Inr (importedPkg, archive)) \<Rightarrow>
             buildImports build env s' dir rest
               (if t < SrcModTime importedPkg then SrcModTime importedPkg else t)))"

definition ImportResolverFor ::
  "(Session \<Rightarrow> PackageData \<Rightarrow> (PackageData \<times> Archive) outcome) \<Rightarrow> Env \<Rightarrow> PackageData
     \<Rightarrow> Session \<Rightarrow> string \<Rightarrow> Archive outcome" where
  "ImportResolverFor build env pkg s path =
     (case UpToDateArchives s path of
        Some archive \<Rightarrow> Some (s, Inr archive)
      | None \<Rightarrow>
         (case buildImportPathWithSrcDir build env s path (Dir pkg) of
            None \<Rightarrow> None
          | Some (s', Inl err) \<Rightarrow> Some (s', Inl err)
          | Some (s', Inr (p, archive)) \<Rightarrow> Some (s', Inr archive)))"

fun resolveAll ::
  "(Session \<Rightarrow> string \<Rightarrow> Archive outcome) \<Rightarrow> Session \<Rightarrow> string list \<Rightarrow> unit outcome" where
  "resolveAll resolver s [] = Some (s, Inr ())"
| "resolveAll resolver s (path # paths) =
     (case resolver s path of
        None \<Rightarrow> None
      | Some (s', Inl err) \<Rightarrow> Some (s', Inl err)
      | Some (s', Inr archive) \<Rightarrow> resolveAll resolver s' paths)"

text \<open>
  Modelled from the spec: \<^verbatim>\<open>compiler.Compile\<close> is the black-box front end. A run of it is
  recorded in \<open>Compiled\<close>; it pulls the packages it asks for through the import callback,
  stops at the first one that fails, and enters the package it compiled into the type
  registry.
\<close>

definition Compile ::
  "(Session \<Rightarrow> string \<Rightarrow> Archive outcome) \<Rightarrow> Env \<Rightarrow> Session \<Rightarrow> string \<Rightarrow> File list \<Rightarrow> bool
     \<Rightarrow> Archive outcome" where
  "Compile resolver env s importPath files minify =
     (case resolveAll resolver (s\<lparr>Compiled := Compiled s @ [importPath]\<rparr>)
             (frontEndImports env importPath files) of
        None \<Rightarrow> None
      | Some (s', Inl err) \<Rightarrow> Some (s', Inl err)
      | Some (s', Inr u) \<Rightarrow>
         (case frontEnd env importPath files minify of
            Inl err \<Rightarrow> Some (s', Inl err)
          | Inr archive \<Rightarrow>
              Some (s'\<lparr>Types := (Types s')(importPath \<mapsto> a_Name archive)\<rparr>, Inr archive)))"

definition wrapJS :: "JSFile \<Rightarrow> string" where
  "wrapJS jsFile =
     [CHR 0x09] @ ''(function() {'' @ [CHR 0x0A] @ Content jsFile
       @ [CHR 0x0A, CHR 0x09] @ ''}).call($global);'' @ [CHR 0x0A]"

primrec BuildPackage ::
  "nat \<Rightarrow> Env \<Rightarrow> Session \<Rightarrow> PackageData \<Rightarrow> (PackageData \<times> Archive) outcome" where
  "BuildPackage 0 env s pkg = None"
| "BuildPackage (Suc n) env s pkg =
     (case UpToDateArchives s (ImportPath pkg) of
        Some archive \<Rightarrow> Some (s, Inr (pkg, archive))
      | None \<Rightarrow>
         (let pkg1 = (if SrcModTime pkg < exeModTime env
                      then pkg\<lparr>SrcModTime := exeModTime env\<rparr> else pkg)
          in case buildImports (BuildPackage n env) env s (Dir pkg1) (Imports pkg1)
                    (SrcModTime pkg1) of
               None \<Rightarrow> None
             | Some (s1, Inl err) \<Rightarrow> Some (s1, Inl err)
             | Some (s1, Inr t) \<Rightarrow>
                (let pkg2 = pkg1\<lparr>SrcModTime := t\<rparr>;
                     fileModTime = FileModTime env pkg2;
                     pkg3 = (if SrcModTime pkg2 < fileModTime
                             then pkg2\<lparr>SrcModTime := fileModTime\<rparr> else pkg2)
                 in case (if NoCache (options s1) then None
                          else LoadArchive (buildCache s1) (ImportPath pkg3) (SrcModTime pkg3)) of
                      Some archive \<Rightarrow>
                        Some (s1\<lparr>UpToDateArchives := (UpToDateArchives s1)(ImportPath pkg3 \<mapsto> archive),
                                 Types := (Types s1)(ImportPath pkg3 \<mapsto> a_Name archive)\<rparr>,
                              Inr (pkg3, archive))
                    | None \<Rightarrow>
                       (case parseAndAugment env pkg3 (IsTest pkg3) of
                          Inl err \<Rightarrow> Some (s1, Inl err)
                        | Inr (files, overlayJsFiles) \<Rightarrow>
                           (case embedFiles env pkg3 files of
                              Inl err \<Rightarrow> Some (s1, Inl err)
                            | Inr embedFile \<Rightarrow>
                               (case Compile (ImportResolverFor (BuildPackage n env) env pkg3) env s1
                                       (ImportPath pkg3) (files @ optl embedFile)
                                       (Minify (options s1)) of
                                  None \<Rightarrow> None
                                | Some (s2, Inl err) \<Rightarrow> Some (s2, Inl err)
                                | Some (s2, Inr archive0) \<Rightarrow>
                                   (let archive = archive0\<lparr>a_IncJSCode := a_IncJSCode archive0
                                          @ concat (map wrapJS (JSFiles pkg3 @ overlayJsFiles))\<rparr>;
                                        s3 = (if Verbose (options s2)
                                              then s2\<lparr>Printed := Printed s2 @ [ImportPath pkg3]\<rparr>
                                              else s2);
                                        s4 = s3\<lparr>buildCache :=
                                                  StoreArchive (buildCache s3) archive (timeNow env)\<rparr>
                                    in Some (s4\<lparr>UpToDateArchives :=
                                                  (UpToDateArchives s4)(ImportPath pkg3 \<mapsto> archive)\<rparr>,
                                             Inr (pkg3, archive)))))))))"

fun joinStrings :: "string \<Rightarrow> string list \<Rightarrow> string" where
  "joinStrings sep [] = []"
| "joinStrings sep [x] = x"
| "joinStrings sep (x # y # ys) = x @ sep @ joinStrings sep (y # ys)"

definition normalizedDir :: "Env \<Rightarrow> string \<Rightarrow> string \<Rightarrow> string" where
  "normalizedDir env cwd filename =
     (let d = fp_Dir env filename;
          d' = (if \<not> fp_IsAbs env d then fp_Join env cwd d else d)
      in fp_Clean env d')"

fun incJSFiles :: "Env \<Rightarrow> string \<Rightarrow> string list \<Rightarrow> JSFile list \<Rightarrow> build_error + JSFile list" where
  "incJSFiles env dir [] jsFiles = Inr jsFiles"
| "incJSFiles env dir (file # files) jsFiles =
     (if \<not> suffix ''.inc.js'' file then incJSFiles env dir files jsFiles
      else
        (case osReadFile env file of
           Inl err \<Rightarrow> Inl (Errorf (''failed to read '' @ file @ '': '' @ err))
         | Inr content \<Rightarrow>
            (case osStat env file of
               Inl err \<Rightarrow> Inl (Errorf (''failed to stat '' @ file @ '': '' @ err))
             | Inr modTime \<Rightarrow>
                 incJSFiles env dir files
                   (jsFiles @ [\<lparr>Path = fp_Join env dir (fp_Base env file), ModTime = modTime,
                                Content = content\<rparr>]))))"

definition BuildFiles ::
  "nat \<Rightarrow> Env \<Rightarrow> Session \<Rightarrow> string list \<Rightarrow> string \<Rightarrow> string
     \<Rightarrow> (Session \<times> build_error option) option" where
  "BuildFiles fuel env s filenames pkgObj cwd =
     (if length filenames = 0 then Some (s, Some (Errorf ''no input sources are provided''))
      else
        (let dirList = sort (remdups (map (normalizedDir env cwd) filenames))
         in if length dirList \<noteq> 1
            then Some (s, Some (Errorf (''named files must all be in one directory; have: ''
                                          @ joinStrings '', '' dirList)))
            else
              (case ctxImportFiles env filenames (dirList ! 0) of
                 Inl err \<Rightarrow> Some (s, Some err)
               | Inr p \<Rightarrow>
                  (let pkg0 = \<lparr>Name = ''main'', ImportPath = ''main'', Dir = Dir p,
                               GoFiles = GoFiles p, Imports = Imports p, JSFiles = [],
                               IsTest = False, SrcModTime = timeNow env + hour env,
                               UpToDate = False, IsVirtual = False\<rparr>
                   in case incJSFiles env (Dir pkg0) filenames [] of
                        Inl err \<Rightarrow> Some (s, Some err)
                      | Inr jsFiles \<Rightarrow>
                         (case BuildPackage fuel env s (pkg0\<lparr>JSFiles := jsFiles\<rparr>) of
                            None \<Rightarrow> None
                          | Some (s', Inl err) \<Rightarrow> Some (s', Some err)
                          | Some (s', Inr (pkg, archive)) \<Rightarrow>
                             (case Types s' ''main'' of
                                None \<Rightarrow> Some (s', Some (Panic ''nil pointer dereference''))
                              | Some name \<Rightarrow>
                                 (if name \<noteq> ''main''
                                  then Some (s', Some (Errorf ''cannot build/run non-main package''))
                                  else Some (s', writeProgram env archive pkgObj))))))))"

section \<open>File paths on Unix\<close>

text \<open>
  The functions of Go's \<^verbatim>\<open>path/filepath\<close> are parameters of the build. This is what they
  compute on Unix, for the examples: \<^verbatim>\<open>Clean\<close> drops empty and \<^verbatim>\<open>.\<close> elements and resolves
  \<^verbatim>\<open>..\<close> against the element before it, \<^verbatim>\<open>Join\<close> cleans the elements joined by a slash, and
  \<^verbatim>\<open>Dir\<close> cleans what stands before the last element.
\<close>

fun splitSlash :: "string \<Rightarrow> string \<Rightarrow> string list" where
  "splitSlash [] cur = [rev cur]"
| "splitSlash (c # cs) cur =
     (if c = CHR ''/'' then rev cur # splitSlash cs [] else splitSlash cs (c # cur))"

fun cleanSteps :: "bool \<Rightarrow> string list \<Rightarrow> string list \<Rightarrow> string list" where
  "cleanSteps rooted [] stack = rev stack"
| "cleanSteps rooted (c # cs) stack =
     (if c = [] \<or> c = ''.'' then cleanSteps rooted cs stack
      else if c = ''..''
      then (case stack of
              [] \<Rightarrow> (if rooted then cleanSteps rooted cs [] else cleanSteps rooted cs [''..''])
            | e # below \<Rightarrow>
                (if e = ''..'' then cleanSteps rooted cs (c # stack)
                 else cleanSteps rooted cs below))
      else cleanSteps rooted cs (c # stack))"

definition unixIsAbs :: "string \<Rightarrow> bool" where
  "unixIsAbs p = (case p of [] \<Rightarrow> False | c # cs \<Rightarrow> c = CHR ''/'')"

definition unixClean :: "string \<Rightarrow> string" where
  "unixClean p =
     (let body = joinStrings ''/'' (cleanSteps (unixIsAbs p) (splitSlash p []) [])
      in if unixIsAbs p then ''/'' @ body else if body = [] then ''.'' else body)"

definition unixJoin :: "string \<Rightarrow> string \<Rightarrow> string" where
  "unixJoin a b =
     (if a = [] \<and> b = [] then []
      else if a = [] then unixClean b
      else if b = [] then unixClean a
      else unixClean (a @ ''/'' @ b))"

definition unixDir :: "string \<Rightarrow> string" where
  "unixDir p = unixClean (rev (dropWhile (\<lambda>c. c \<noteq> CHR ''/'') (rev p)))"

section \<open>The runtime bootstrap\<close>

text \<open>
  The loader of the generated program. The registry \<^verbatim>\<open>$packages\<close> is a plain JavaScript
  object: its own properties are kept in the order in which they were entered, and reading
  a name that is not an own property goes on to the prototype of plain objects, where the
  names of \<open>objectPrototype\<close> are found. A package object has a \<^verbatim>\<open>$init\<close> function and is known
  by its name and by whether it has a \<^verbatim>\<open>$initLinknames\<close> function. Loading a script either fails or leaves
  the own properties of the registry as the script and the packages it registers made
  them; the functions \<^verbatim>\<open>$synthesizeMethods\<close>, \<^verbatim>\<open>$go\<close> and \<^verbatim>\<open>$flushConsole\<close> and the
  initializers of the packages are not part of the loader and appear as events of the
  trace.
\<close>

record pkgObject =
  po_name :: string
  po_initLinknames :: bool

text \<open>
  What reading a property of the registry gives: \<^verbatim>\<open>undefined\<close>, a registered package
  object, or the member of the prototype of that name (a built-in function or object,
  which has neither \<^verbatim>\<open>$init\<close> nor \<^verbatim>\<open>$initLinknames\<close>).
\<close>

datatype jsval = Undefined | Package pkgObject | Builtin string

text \<open>
  An event \<open>Go f\<close> is the call \<^verbatim>\<open>$go(f, [])\<close>, where \<open>f\<close> is the initializer of a package
  object (\<open>Some m\<close>) or \<^verbatim>\<open>undefined\<close> (\<open>None\<close>).
\<close>

datatype event =
    Fetch string
  | SynthesizeMethods
  | InitLinknames pkgObject
  | Init pkgObject
  | Go "pkgObject option"
  | FlushConsole

datatype js_error = LoadError string | TypeError

record Runtime =
  packages :: "(string \<times> pkgObject) list"
  mainPkgName :: string
  cacheLookupUrl :: string
  trace :: "event list"

type_synonym loader = "string \<Rightarrow> (string \<times> pkgObject) list \<Rightarrow> (string \<times> pkgObject) list option"

definition objectPrototype :: "string list" where
  "objectPrototype =
     [''constructor'', ''__defineGetter__'', ''__defineSetter__'', ''hasOwnProperty'',
      ''__lookupGetter__'', ''__lookupSetter__'', ''isPrototypeOf'', ''propertyIsEnumerable'',
      ''toString'', ''valueOf'', ''__proto__'', ''toLocaleString'']"

text \<open>The expression \<^verbatim>\<open>$packages[name]\<close>.\<close>

definition getProperty :: "(string \<times> pkgObject) list \<Rightarrow> string \<Rightarrow> jsval" where
  "getProperty pkgs name =
     (case map_of pkgs name of
        Some p \<Rightarrow> Package p
      | None \<Rightarrow> (if name \<in> set objectPrototype then Builtin name else Undefined))"

text \<open>
  Modelled from the spec: \<^verbatim>\<open>$keys\<close> is not among the sources. It gives the names under which
  packages are registered, the own properties of the registry, in the order of their
  registration.
\<close>

definition keys :: "(string \<times> pkgObject) list \<Rightarrow> string list" where
  "keys pkgs = map fst pkgs"

text \<open>
  The loop of \<^verbatim>\<open>$initAllLinknames\<close> over the names: reading \<^verbatim>\<open>$initLinknames\<close> off
  \<^verbatim>\<open>undefined\<close> throws, and a value without such a function is passed over.
\<close>

fun initLinknames :: "(string \<times> pkgObject) list \<Rightarrow> string list \<Rightarrow> event list \<times> js_error option" where
  "initLinknames pkgs [] = ([], None)"
| "initLinknames pkgs (name # names) =
     (case getProperty pkgs name of
        Undefined \<Rightarrow> ([], Some TypeError)
      | Builtin b \<Rightarrow> initLinknames pkgs names
      | Package p \<Rightarrow>
          (if po_initLinknames p
           then (case initLinknames pkgs names of (evs, err) \<Rightarrow> (InitLinknames p # evs, err))
           else initLinknames pkgs names))"

definition initAllLinknames :: "Runtime \<Rightarrow> Runtime \<times> js_error option" where
  "initAllLinknames rt =
     (case initLinknames (packages rt) (keys (packages rt)) of
        (evs, err) \<Rightarrow> (rt\<lparr>trace := trace rt @ evs\<rparr>, err))"

definition loadScript :: "loader \<Rightarrow> Runtime \<Rightarrow> string \<Rightarrow> Runtime \<times> js_error option" where
  "loadScript load rt source =
     (let rt1 = rt\<lparr>trace := trace rt @ [Fetch source]\<rparr>
      in case load source (packages rt1) of
           None \<Rightarrow> (rt1, Some (LoadError (''Failed to load script: '' @ source)))
         | Some pkgs \<Rightarrow> (rt1\<lparr>packages := pkgs\<rparr>, None))"

definition getPackage :: "loader \<Rightarrow> Runtime \<Rightarrow> string \<Rightarrow> Runtime \<times> (js_error + jsval)" where
  "getPackage load rt packageName =
     (if getProperty (packages rt) packageName = Undefined
      then (case loadScript load rt (cacheLookupUrl rt @ packageName @ ''.js'') of
              (rt1, Some err) \<Rightarrow> (rt1, Inl err)
            | (rt1, None) \<Rightarrow> (rt1, Inr (getProperty (packages rt1) packageName)))
      else (rt, Inr (getProperty (packages rt) packageName)))"

text \<open>
  The startup. Calling \<^verbatim>\<open>$init\<close> on a value that is not a package object and reading
  \<^verbatim>\<open>$init\<close> off \<^verbatim>\<open>undefined\<close> throw; reading it off a member of the prototype
  gives \<^verbatim>\<open>undefined\<close>, which is handed to \<^verbatim>\<open>$go\<close>.
\<close>

definition startup :: "loader \<Rightarrow> Runtime \<Rightarrow> Runtime \<times> js_error option" where
  "startup load rt =
     (case getPackage load rt (mainPkgName rt) of
        (rt1, Inl err) \<Rightarrow> (rt1, Some err)
      | (rt1, Inr mainPkg) \<Rightarrow>
         (let rt2 = rt1\<lparr>trace := trace rt1 @ [SynthesizeMethods]\<rparr>
          in case initAllLinknames rt2 of
               (rt3, Some err) \<Rightarrow> (rt3, Some err)
             | (rt3, None) \<Rightarrow>
                (case getPackage load rt3 ''runtime'' of
                   (rt4, Inl err) \<Rightarrow> (rt4, Some err)
                 | (rt4, Inr Undefined) \<Rightarrow> (rt4, Some TypeError)
                 | (rt4, Inr (Builtin b)) \<Rightarrow> (rt4, Some TypeError)
                 | (rt4, Inr (Package runtimePkg)) \<Rightarrow>
                    (let rt5 = rt4\<lparr>trace := trace rt4 @ [Init runtimePkg]\<rparr>
                     in case mainPkg of
                          Undefined \<Rightarrow> (rt5, Some TypeError)
                        | Builtin b \<Rightarrow> (rt5\<lparr>trace := trace rt5 @ [Go None, FlushConsole]\<rparr>, None)
                        | Package m \<Rightarrow> (rt5\<lparr>trace := trace rt5 @ [Go (Some m), FlushConsole]\<rparr>, None)))))"

definition NewSession :: "Options \<Rightarrow> (string \<Rightarrow> (time \<times> Archive) option) \<Rightarrow> Session" where
  "NewSession opts cache =
     \<lparr>options = opts\<lparr>Verbose := (Verbose opts \<or> Watch opts)\<rparr>, UpToDateArchives = Map.empty,
      Types = Map.empty, buildCache = cache, Compiled = [], Printed = []\<rparr>"

section \<open>What the properties speak of\<close>

text \<open>
  The definitions of this part state the properties: the well-formedness of inputs, the
  outputs the specification expects, and the concrete inputs of the examples.
\<close>

definition unixEnv :: Env where
  "unixEnv =
     \<lparr>fp_IsAbs = unixIsAbs, fp_Join = unixJoin, fp_Dir = unixDir, fp_Clean = unixClean,
      fp_Base = pathBase, exeModTime = 1, timeNow = 100, hour = 3600,
      xctxImport = (\<lambda>path srcDir. Inl (ImportError path)),
      ReadDir = (\<lambda>dir. None),
      openAndParse = (\<lambda>name. OpenFailed name),
      nativesImport = (\<lambda>path. None),
      overlayOpenAndParse = (\<lambda>fullPath newPath. None),
      embedFiles = (\<lambda>pkg files. Inr None),
      frontEndImports = (\<lambda>path files. []),
      frontEnd = (\<lambda>path files minify.
         Inr \<lparr>a_ImportPath = path, a_Name = pathBase path, a_Code = [], a_IncJSCode = []\<rparr>),
      ctxImportFiles = (\<lambda>filenames root. Inl (ImportError root)),
      osReadFile = (\<lambda>file. Inl file),
      osStat = (\<lambda>file. Inl file),
      writeProgram = (\<lambda>archive pkgObj. None)\<rparr>"

definition noOptions :: Options where
  "noOptions = \<lparr>Verbose = False, Watch = False, Minify = False, NoCache = False\<rparr>"

subsection \<open>Parse errors\<close>

text \<open>
  The name a source file is opened under, and what the specification expects one file to
  contribute to the reported errors: its whole list when that has at most ten entries,
  and otherwise its first ten entries followed by the marker, which stands at the
  position of the tenth.
\<close>

definition resolveName :: "Env \<Rightarrow> PackageData \<Rightarrow> string \<Rightarrow> string" where
  "resolveName env pkg name = (if fp_IsAbs env name then name else fp_Join env (Dir pkg) name)"

definition tooManyErrors :: "ScannerError \<Rightarrow> ScannerError" where
  "tooManyErrors tenth = \<lparr>Pos = Pos tenth, Msg = ''too many errors''\<rparr>"

fun reportedErrors :: "parse_outcome \<Rightarrow> parse_error list" where
  "reportedErrors (ParseErrorList list) =
     map ScanErr (if length list \<le> 10 then list else take 10 list @ [tooManyErrors (list ! 9)])"
| "reportedErrors (ParseFailed err) = [PlainErr err]"
| "reportedErrors other = []"

fun canOpen :: "parse_outcome \<Rightarrow> bool" where
  "canOpen (OpenFailed err) = False"
| "canOpen other = True"

definition packageErrors :: "Env \<Rightarrow> PackageData \<Rightarrow> parse_error list" where
  "packageErrors env pkg =
     concat (map (\<lambda>name. reportedErrors (openAndParse env (resolveName env pkg name)))
               (GoFiles pkg))"

definition scanErrors :: "string \<Rightarrow> nat \<Rightarrow> ScannerError list" where
  "scanErrors file n =
     map (\<lambda>k. \<lparr>Pos = \<lparr>Filename = file, Line = Suc k, Column = 1\<rparr>, Msg = ''syntax error''\<rparr>)
       [0 ..< n]"

definition twoBadFilesEnv :: Env where
  "twoBadFilesEnv = unixEnv\<lparr>openAndParse := (\<lambda>name. ParseErrorList (scanErrors name 11))\<rparr>"

definition twoBadFilesPkg :: PackageData where
  "twoBadFilesPkg =
     NewPackageData \<lparr>Name = ''p'', ImportPath = ''example/p'', Dir = ''/src/p'',
                      GoFiles = [''a.go'', ''b.go''], Imports = []\<rparr> False []"

subsection \<open>Programs for the startup sequence\<close>

text \<open>
  A host that serves three scripts: that of the runtime-support package, which registers
  it, and those of two entry packages, each of which registers the runtime-support
  package and then itself. One program has the entry package \<^verbatim>\<open>main\<close>, the other the
  entry package \<^verbatim>\<open>constructor\<close>; neither has registered anything yet.
\<close>

definition exampleMain :: pkgObject where
  "exampleMain = \<lparr>po_name = ''main'', po_initLinknames = False\<rparr>"

definition exampleConstructor :: pkgObject where
  "exampleConstructor = \<lparr>po_name = ''constructor'', po_initLinknames = False\<rparr>"

definition exampleRuntime :: pkgObject where
  "exampleRuntime = \<lparr>po_name = ''runtime'', po_initLinknames = True\<rparr>"

definition exampleLoader :: loader where
  "exampleLoader source pkgs =
     (if source = ''cache/runtime.js''
      then Some (AList.update ''runtime'' exampleRuntime pkgs)
      else if source = ''cache/main.js''
      then Some (AList.update ''main'' exampleMain (AList.update ''runtime'' exampleRuntime pkgs))
      else if source = ''cache/constructor.js''
      then Some (AList.update ''constructor'' exampleConstructor
                   (AList.update ''runtime'' exampleRuntime pkgs))
      else None)"

definition exampleProgram :: Runtime where
  "exampleProgram = \<lparr>packages = [], mainPkgName = ''main'', cacheLookupUrl = ''cache/'', trace = []\<rparr>"

definition constructorProgram :: Runtime where
  "constructorProgram =
     \<lparr>packages = [], mainPkgName = ''constructor'', cacheLookupUrl = ''cache/'', trace = []\<rparr>"

subsection \<open>The merged output of the augmentation\<close>

text \<open>
  The function declarations of a file, in order, and what the specification says becomes
  of a function declaration of an original file: with an entry of its own in the
  override map it is renamed to the mangled form if the entry says keep-original, takes
  the receiver, type parameters, parameters and results of the overlay declaration if
  the entry carries an overriding signature, and is deleted if the entry says neither;
  without an entry of its own it is deleted if its receiver type is marked
  purge-methods, and kept as it is otherwise.
\<close>

fun funcsOf :: "decl option list \<Rightarrow> FuncDecl list" where
  "funcsOf [] = []"
| "funcsOf (Some (DFunc d) # ds) = d # funcsOf ds"
| "funcsOf (other # ds) = funcsOf ds"

definition funcDecls :: "File \<Rightarrow> FuncDecl list" where
  "funcDecls f = funcsOf (f_Decls f)"

definition mangled :: "FuncDecl \<Rightarrow> FuncDecl" where
  "mangled d = d\<lparr>fd_Name := ''_gopherjs_original_'' @ fd_Name d\<rparr>"

definition spliceSignature :: "FuncDecl \<Rightarrow> FuncDecl \<Rightarrow> FuncDecl" where
  "spliceSignature overSig d =
     d\<lparr>fd_Recv := fd_Recv overSig, fd_TypeParams := fd_TypeParams overSig,
       fd_Params := fd_Params overSig, fd_Results := fd_Results overSig\<rparr>"

definition rewriteFunc :: "overrides \<Rightarrow> FuncDecl \<Rightarrow> FuncDecl option" where
  "rewriteFunc ovr d =
     (case map_of ovr (FuncKey d) of
        Some info \<Rightarrow>
          (case overrideSignature info of
             None \<Rightarrow> (if keepOriginal info then Some (mangled d) else None)
           | Some overSig \<Rightarrow>
               Some (spliceSignature overSig (if keepOriginal info then mangled d else d)))
      | None \<Rightarrow>
          (case map_of ovr (FuncReceiverKey d) of
             None \<Rightarrow> Some d
           | Some info \<Rightarrow>
               (if purgeMethods info \<and> FuncReceiverKey d \<noteq> [] then None else Some d)))"

text \<open>
  The override map that the overlay files of a package yield, as \<open>Augment\<close> hands it to the
  rewriting of the original files.
\<close>

definition overridesOf :: "File list \<Rightarrow> overrides" where
  "overridesOf overlayFiles = AList.delete ''init'' (snd (augmentOverlayFiles overlayFiles []))"

text \<open>
  What the overlay files enter into the override map, in the order of the entries: one
  entry for each function declaration under its identity key, one for each type under
  its name, marked purge-methods when the type or its declaration carries the purge
  directive, and one for each declared value under its name. A later entry for a key
  replaces an earlier one.
\<close>

fun specWrites ::
  "(addr \<Rightarrow> ImportSpec option) \<Rightarrow> bool \<Rightarrow> spec option \<Rightarrow> (string \<times> overrideInfo) list" where
  "specWrites h purgeDecl (Some (SType s)) =
     [(ts_Name s, noInfo\<lparr>purgeMethods := (purgeDecl \<or> PurgeSpec h (SType s))\<rparr>)]"
| "specWrites h purgeDecl (Some (SValue s)) = map (\<lambda>name. (name, noInfo)) (somes (vs_Names s))"
| "specWrites h purgeDecl other = []"

fun declWrites :: "(addr \<Rightarrow> ImportSpec option) \<Rightarrow> decl option \<Rightarrow> (string \<times> overrideInfo) list" where
  "declWrites h (Some (DFunc d)) =
     [(FuncKey d, \<lparr>keepOriginal = KeepOriginal d, purgeMethods = False,
                   overrideSignature = (if OverrideSignature d then Some d else None)\<rparr>)]"
| "declWrites h (Some (DGen g)) = concat (map (specWrites h (PurgeDecl (DGen g))) (gd_Specs g))"
| "declWrites h None = []"

definition fileWrites :: "File \<Rightarrow> (string \<times> overrideInfo) list" where
  "fileWrites f = concat (map (declWrites (f_heap f)) (f_Decls f))"

definition packageWrites :: "File list \<Rightarrow> (string \<times> overrideInfo) list" where
  "packageWrites fs = concat (map fileWrites fs)"

definition declaredOnce :: "File list \<Rightarrow> string \<Rightarrow> bool" where
  "declaredOnce overlayFiles k = (length (filter (\<lambda>w. fst w = k) (packageWrites overlayFiles)) = 1)"

text \<open>A type of the overlay files that carries the purge directive, on itself or on its declaration.\<close>

fun purgesType :: "(addr \<Rightarrow> ImportSpec option) \<Rightarrow> string \<Rightarrow> decl option \<Rightarrow> bool" where
  "purgesType h T (Some (DGen g)) =
     list_ex (\<lambda>sp. case sp of
                     Some (SType s) \<Rightarrow> ts_Name s = T \<and> (PurgeDecl (DGen g) \<or> PurgeSpec h (SType s))
                   | other \<Rightarrow> False) (gd_Specs g)"
| "purgesType h T other = False"

definition purgedType :: "File list \<Rightarrow> string \<Rightarrow> bool" where
  "purgedType overlayFiles T =
     list_ex (\<lambda>f. list_ex (purgesType (f_heap f) T) (f_Decls f)) overlayFiles"

definition isInit :: "FuncDecl \<Rightarrow> bool" where
  "isInit d = (fd_Recv d = None \<and> fd_Name d = ''init'')"

definition applyWrites :: "(string \<times> overrideInfo) list \<Rightarrow> overrides \<Rightarrow> overrides" where
  "applyWrites ws ovr = fold (\<lambda>w. AList.update (fst w) (snd w)) ws ovr"

text \<open>Small source files for the examples.\<close>

definition mkFunc :: "comment_group option \<Rightarrow> recv_type option \<Rightarrow> string \<Rightarrow> string \<Rightarrow> FuncDecl" where
  "mkFunc doc recv name body =
     \<lparr>fd_Doc = doc, fd_Recv = recv, fd_Name = name, fd_TypeParams = None,
      fd_Params = Node ''()'' [] [], fd_Results = None, fd_Body = Some (Node body [] [])\<rparr>"

definition mkFile :: "decl option list \<Rightarrow> File" where
  "mkFile ds =
     (let f = \<lparr>f_Doc = None, f_Name = ''p'', f_Decls = ds, f_Imports = [], f_Comments = [],
               f_heap = Map.empty\<rparr>
      in f\<lparr>f_Comments := walkComments f\<rparr>)"

text \<open>
  Scenario A: the overlay defines \<^verbatim>\<open>F\<close> with the keep-original directive and an initializer;
  the original defines \<^verbatim>\<open>F\<close> returning 1 and an initializer of its own.
\<close>

definition overlayF :: FuncDecl where
  "overlayF = mkFunc (Some [''//gopherjs:keep-original'']) None ''F''
                ''{ return _gopherjs_original_F() + 1 }''"

definition overlayInit :: FuncDecl where
  "overlayInit = mkFunc None None ''init'' ''{ overlaySetup() }''"

definition originalF :: FuncDecl where
  "originalF = mkFunc None None ''F'' ''{ return 1 }''"

definition originalInit :: FuncDecl where
  "originalInit = mkFunc None None ''init'' ''{ setup() }''"

definition overlayA :: File where
  "overlayA = mkFile [Some (DFunc overlayF), Some (DFunc overlayInit)]"

definition originalA :: File where
  "originalA = mkFile [Some (DFunc originalInit), Some (DFunc originalF)]"

text \<open>
  An overlay that purges the type \<^verbatim>\<open>T\<close>, and an original with a method of \<^verbatim>\<open>T\<close> and a
  function.
\<close>

definition overlayPurgeT :: File where
  "overlayPurgeT =
     mkFile [Some (DGen \<lparr>gd_Doc = Some [''//gopherjs:purge''], gd_Tok = TYPE',
                          gd_Specs = [Some (SType \<lparr>ts_Doc = None, ts_Name = ''T'',
                             ts_TypeParams = None, ts_Type = Node ''struct{}'' [] [],
                             ts_Comment = None\<rparr>)]\<rparr>)]"

definition methodOfT :: FuncDecl where
  "methodOfT = mkFunc None (Some (RStar (RIdent ''T''))) ''m'' ''{ }''"

definition originalWithT :: File where
  "originalWithT = mkFile [Some (DFunc methodOfT), Some (DFunc originalF)]"

subsection \<open>A session with a stale cache entry\<close>

text \<open>
  Three packages: \<^verbatim>\<open>example/top\<close> imports \<^verbatim>\<open>example/p\<close> and \<^verbatim>\<open>example/q\<close>, and \<^verbatim>\<open>example/q\<close>
  imports \<^verbatim>\<open>example/p\<close>. All three were built at time 5 and are in the on-disk cache. The
  source file of \<^verbatim>\<open>example/p\<close> was then modified at time 10; the files of the other two
  packages date from time 2 and the toolchain binary from time 1. Package resolution
  yields a new descriptor on every call, as \<open>NewPackageData\<close> makes it.
\<close>

definition examplePackage :: "string \<Rightarrow> Package option" where
  "examplePackage path =
     (if path = ''example/top''
      then Some \<lparr>Name = ''top'', ImportPath = ''example/top'', Dir = ''/src/top'',
                 GoFiles = [''top.go''], Imports = [''example/p'', ''example/q'']\<rparr>
      else if path = ''example/p''
      then Some \<lparr>Name = ''p'', ImportPath = ''example/p'', Dir = ''/src/p'',
                 GoFiles = [''p.go''], Imports = []\<rparr>
      else if path = ''example/q''
      then Some \<lparr>Name = ''q'', ImportPath = ''example/q'', Dir = ''/src/q'',
                 GoFiles = [''q.go''], Imports = [''example/p'']\<rparr>
      else None)"

definition exampleArchive :: "string \<Rightarrow> Archive" where
  "exampleArchive path =
     \<lparr>a_ImportPath = path, a_Name = pathBase path, a_Code = [], a_IncJSCode = []\<rparr>"

definition staleEnv :: Env where
  "staleEnv = unixEnv
     \<lparr>exeModTime := 1, timeNow := 20,
      xctxImport := (\<lambda>path srcDir. case examplePackage path of
                       None \<Rightarrow> Inl (ImportError path)
                     | Some pkg \<Rightarrow> Inr (NewPackageData pkg False [])),
      ReadDir := (\<lambda>dir. if dir = ''/src/p'' then Some [(''p.go'', 10)]
                         else if dir = ''/src/q'' then Some [(''q.go'', 2)]
                         else if dir = ''/src/top'' then Some [(''top.go'', 2)]
                         else None),
      openAndParse := (\<lambda>name. Parsed
         \<lparr>f_Doc = None, f_Name = ''x'', f_Decls = [], f_Imports = [], f_Comments = [],
          f_heap = Map.empty\<rparr>)\<rparr>"

definition staleCache :: "string \<Rightarrow> (time \<times> Archive) option" where
  "staleCache path =
     (if path = ''example/top'' \<or> path = ''example/p'' \<or> path = ''example/q''
      then Some (5, (exampleArchive path)\<lparr>a_Code := ''built at 5''\<rparr>) else None)"

definition examplePackageData :: "string \<Rightarrow> PackageData" where
  "examplePackageData path = NewPackageData (the (examplePackage path)) False []"

definition topPackage :: PackageData where
  "topPackage = examplePackageData ''example/top''"

text \<open>The session after \<^verbatim>\<open>example/p\<close> is built, and after \<^verbatim>\<open>example/q\<close> is built as well.\<close>

definition afterP :: Session where
  "afterP = (NewSession noOptions staleCache)
     \<lparr>UpToDateArchives := [''example/p'' \<mapsto> exampleArchive ''example/p''],
      Types := [''example/p'' \<mapsto> ''p''],
      buildCache := staleCache(''example/p'' \<mapsto> (20, exampleArchive ''example/p'')),
      Compiled := [''example/p'']\<rparr>"

definition afterQ :: Session where
  "afterQ = afterP
     \<lparr>UpToDateArchives := (UpToDateArchives afterP)
         (''example/q'' \<mapsto> (exampleArchive ''example/q'')\<lparr>a_Code := ''built at 5''\<rparr>),
      Types := (Types afterP)(''example/q'' \<mapsto> ''q'')\<rparr>"

subsection \<open>Import graphs without cycles\<close>

text \<open>
  Go has no import cycles. \<open>rank\<close> witnesses it: every package that the build of a package
  asks for, through its import list or through the import callback of the front end,
  has a smaller rank than the package. A session is consistent when no import path was
  compiled twice and every compiled path is among the archives of the session.
\<close>

definition below :: "Env \<Rightarrow> (string \<Rightarrow> nat) \<Rightarrow> PackageData \<Rightarrow> bool" where
  "below env rank pkg =
     (\<forall>q pkg'. (q \<in> set (Imports pkg) \<or> (\<exists>files. q \<in> set (frontEndImports env (ImportPath pkg) files)))
        \<longrightarrow> xctxImport env q (Dir pkg) = Inr pkg'
        \<longrightarrow> rank (ImportPath pkg') < rank (ImportPath pkg))"



definition pending :: "Session \<Rightarrow> string set" where
  "pending s = set (Compiled s) - dom (UpToDateArchives s)"






subsection \<open>Value declarations through the augmentation\<close>

text \<open>
  The value specifications of a file, in order: those of its \<^verbatim>\<open>var\<close> and \<^verbatim>\<open>const\<close>
  declarations. A value specification is in the multi-value context when it has as many
  initializer expressions as names, and it is as the parser gives it when it has a name
  and none of its names and expressions is missing. A name is overridden when it is the key
  of an entry that the overlay files make in the override map (the name of a function, a
  type or a value that they declare) and it is not \<^verbatim>\<open>init\<close>. What the specification says becomes of a value specification in the
  multi-value context: the pairs of a name and its expression whose name is overridden are
  deleted, the other pairs stay as they are and in their order, and the specification goes
  when no pair is left.
\<close>

fun valuesOfSpecs :: "spec option list \<Rightarrow> ValueSpec list" where
  "valuesOfSpecs [] = []"
| "valuesOfSpecs (Some (SValue s) # sps) = s # valuesOfSpecs sps"
| "valuesOfSpecs (other # sps) = valuesOfSpecs sps"

fun valuesOfDecl :: "decl option \<Rightarrow> ValueSpec list" where
  "valuesOfDecl (Some (DGen g)) = (if gd_Tok g = IMPORT then [] else valuesOfSpecs (gd_Specs g))"
| "valuesOfDecl other = []"

definition valueSpecs :: "File \<Rightarrow> ValueSpec list" where
  "valueSpecs f = concat (map valuesOfDecl (f_Decls f))"

definition oneToOne :: "ValueSpec \<Rightarrow> bool" where
  "oneToOne s = (length (vs_Names s) = length (vs_Values s))"

definition asParsed :: "ValueSpec \<Rightarrow> bool" where
  "asParsed s = (vs_Names s \<noteq> [] \<and> None \<notin> set (vs_Names s) \<and> None \<notin> set (vs_Values s))"

definition overridden :: "File list \<Rightarrow> string \<Rightarrow> bool" where
  "overridden overlayFiles name =
     (name \<noteq> ''init'' \<and> name \<in> set (map fst (packageWrites overlayFiles)))"

definition notIn :: "(string \<Rightarrow> bool) \<Rightarrow> ident option \<times> node option \<Rightarrow> bool" where
  "notIn ov p = (case fst p of None \<Rightarrow> False | Some name \<Rightarrow> \<not> ov name)"

definition keptPairs :: "(string \<Rightarrow> bool) \<Rightarrow> ValueSpec \<Rightarrow> (ident option \<times> node option) list" where
  "keptPairs ov s = filter (notIn ov) (zip (vs_Names s) (vs_Values s))"

definition keptSpec :: "(string \<Rightarrow> bool) \<Rightarrow> ValueSpec \<Rightarrow> ValueSpec option" where
  "keptSpec ov s =
     (if keptPairs ov s = [] then None
      else Some (s\<lparr>vs_Names := map fst (keptPairs ov s), vs_Values := map snd (keptPairs ov s)\<rparr>))"

definition cleanNames :: "ValueSpec \<Rightarrow> bool" where
  "cleanNames s = (None \<notin> set (vs_Names s))"

text \<open>
  Scenario B: the original declares \<^verbatim>\<open>var X, Y = 1, sideEffect()\<close> and the overlay declares
  \<^verbatim>\<open>X\<close> only.
\<close>

definition mkValues :: "string list \<Rightarrow> string list \<Rightarrow> ValueSpec" where
  "mkValues names values =
     \<lparr>vs_Doc = None, vs_Names = map Some names, vs_Type = None,
      vs_Values = map (\<lambda>v. Some (Node v [] [])) values, vs_Comment = None\<rparr>"

definition mkVar :: "ValueSpec \<Rightarrow> decl option" where
  "mkVar s = Some (DGen \<lparr>gd_Doc = None, gd_Tok = VAR, gd_Specs = [Some (SValue s)]\<rparr>)"

definition overlayB :: File where
  "overlayB = mkFile [mkVar (mkValues [''X''] [''2''])]"

definition originalB :: File where
  "originalB = mkFile [mkVar (mkValues [''X'', ''Y''] [''1'', ''sideEffect()''])]"

subsection \<open>Imports that a directive needs\<close>




subsection \<open>Functions kept under a mangled name\<close>

text \<open>
  The function declarations of a set of files, and of the merged output. The names of
  functions and receiver types are identifiers, so they hold no dot, and here no function
  of the sources has a name that is already in the mangled form.
\<close>

definition allFuncs :: "File list \<Rightarrow> FuncDecl list" where
  "allFuncs fs = concat (map funcDecls fs)"

definition plainName :: "FuncDecl \<Rightarrow> bool" where
  "plainName d =
     (CHR ''.'' \<notin> set (fd_Name d) \<and> CHR ''.'' \<notin> set (FuncReceiverKey d) \<and>
      \<not> prefix ''_gopherjs_original_'' (fd_Name d))"

text \<open>An overlay with a keep-original directive on its initializer.\<close>

definition keptInit :: FuncDecl where
  "keptInit = mkFunc (Some [''//gopherjs:keep-original'']) None ''init'' ''{ overlaySetup() }''"

definition overlayKeepInit :: File where
  "overlayKeepInit = mkFile [Some (DFunc keptInit)]"

definition originalOnlyInit :: File where
  "originalOnlyInit = mkFile [Some (DFunc originalInit)]"

section \<open>Properties\<close>

subsection \<open>Parse errors of the original files\<close>

lemma parseOriginals_Cons:
  "parseOriginals env pkg (name # names) files errList =
     (case openAndParse env (resolveName env pkg name) of
        OpenFailed err \<Rightarrow> Inl (OpenError err)
      | ParseErrorList list \<Rightarrow>
          parseOriginals env pkg names files (errList @ map ScanErr (capErrors list))
      | ParseFailed err \<Rightarrow> parseOriginals env pkg names files (errList @ [PlainErr err])
      | Parsed file \<Rightarrow> parseOriginals env pkg names (files @ [file]) errList)"
  by (simp add: resolveName_def Let_def)

lemma parseOriginals_open:
  assumes "\<forall>name \<in> set names. canOpen (openAndParse env (resolveName env pkg name))"
  shows "parseOriginals env pkg names files errList =
     parseOriginals env pkg []
       (files @ concat (map (\<lambda>name. case openAndParse env (resolveName env pkg name) of
                     Parsed file \<Rightarrow> [file] | other \<Rightarrow> []) names))
       (errList @ concat (map (\<lambda>name. reportedErrors (openAndParse env (resolveName env pkg name))) names))"
  using assms
proof (induction names arbitrary: files errList)
  case Nil
  then show ?case by simp
next
  case (Cons name names)
  from Cons.prems have *: "\<forall>name \<in> set names. canOpen (openAndParse env (resolveName env pkg name))"
    and o: "canOpen (openAndParse env (resolveName env pkg name))" by simp_all
  show ?case
  proof (cases "openAndParse env (resolveName env pkg name)")
    case (OpenFailed e)
    with o show ?thesis by simp
  next
    case (ParseErrorList l)
    then show ?thesis
      using Cons.IH[OF *]
      by (simp add: parseOriginals_Cons capErrors_def tooManyErrors_def del: parseOriginals.simps)
  next
    case (ParseFailed e)
    then show ?thesis
      using Cons.IH[OF *] by (simp add: parseOriginals_Cons del: parseOriginals.simps)
  next
    case (Parsed parsed)
    then show ?thesis
      using Cons.IH[OF *] by (simp add: parseOriginals_Cons del: parseOriginals.simps)
  qed
qed

lemma parserOriginalFiles_errors:
  assumes "\<forall>name \<in> set (GoFiles pkg). canOpen (openAndParse env (resolveName env pkg name))"
    and "packageErrors env pkg \<noteq> []"
  shows "parserOriginalFiles env pkg = Inl (ErrorList (packageErrors env pkg))"
proof -
  have "parserOriginalFiles env pkg =
     parseOriginals env pkg []
       (concat (map (\<lambda>name. case openAndParse env (resolveName env pkg name) of
                     Parsed file \<Rightarrow> [file] | other \<Rightarrow> []) (GoFiles pkg)))
       (packageErrors env pkg)"
    unfolding parserOriginalFiles_def packageErrors_def
    using parseOriginals_open[OF assms(1), of "[]" "[]"] by simp
  with assms(2) show ?thesis by simp
qed

lemma FileModTime_SrcModTime [simp]:
  "FileModTime env (pkg\<lparr>SrcModTime := t\<rparr>) = FileModTime env pkg"
  by (simp add: FileModTime_def split: option.splits)

lemma parseOriginals_SrcModTime:
  "parseOriginals env (pkg\<lparr>SrcModTime := t\<rparr>) names files errList =
   parseOriginals env pkg names files errList"
  by (induction names arbitrary: files errList) (simp_all split: parse_outcome.splits)

lemma parseOverlays_SrcModTime:
  "parseOverlays env (pkg\<lparr>SrcModTime := t\<rparr>) np names files = parseOverlays env pkg np names files"
  by (induction names arbitrary: files) (simp_all split: option.splits)

lemma parseAndAugment_SrcModTime [simp]:
  "parseAndAugment env (pkg\<lparr>SrcModTime := t\<rparr>) isTest = parseAndAugment env pkg isTest"
  by (simp add: parseAndAugment_def parseOverlayFiles_def parserOriginalFiles_def Let_def
      parseOriginals_SrcModTime parseOverlays_SrcModTime
      split: option.splits sum.splits prod.splits)

lemma BuildPackage_parse_failure:
  assumes "UpToDateArchives s (ImportPath pkg) = None"
    and "buildImports (BuildPackage n env) env s (Dir pkg) (Imports pkg)
           (max (SrcModTime pkg) (exeModTime env)) = Some (s1, Inr t)"
    and "NoCache (options s1) \<or>
         LoadArchive (buildCache s1) (ImportPath pkg) (max t (FileModTime env pkg)) = None"
    and "parseAndAugment env pkg (IsTest pkg) = Inl err"
  shows "BuildPackage (Suc n) env s pkg = Some (s1, Inl err)"
proof -
  have m: "(if SrcModTime pkg < exeModTime env then exeModTime env else SrcModTime pkg)
             = max (SrcModTime pkg) (exeModTime env)"
    by (simp add: max_def)
  have m2: "(if t < FileModTime env pkg then FileModTime env pkg else t) = max t (FileModTime env pkg)"
    by (simp add: max_def)
  show ?thesis
    using assms
    by (auto simp add: Let_def if_distrib[of SrcModTime] if_distrib[of Dir] if_distrib[of Imports]
        m m2 if_distrib[of ImportPath] if_distrib[of IsTest] if_distrib[of "parseAndAugment env"]
        cong: if_cong)
qed

lemma twoBadFiles_errors:
  "length (packageErrors twoBadFilesEnv twoBadFilesPkg) = 22"
  by (simp add: packageErrors_def twoBadFilesEnv_def twoBadFilesPkg_def unixEnv_def
      NewPackageData_def scanErrors_def)

lemma twoBadFiles_open:
  "\<forall>name \<in> set (GoFiles twoBadFilesPkg).
     canOpen (openAndParse twoBadFilesEnv (resolveName twoBadFilesEnv twoBadFilesPkg name))"
  by (simp add: twoBadFilesEnv_def twoBadFilesPkg_def unixEnv_def NewPackageData_def)

text \<open>
  C6, as the code has it. The cap of ten entries and the marker apply to the error list
  of each file, not to the list that is reported: when every file of the package can be
  opened and some file has a syntax error, parsing reports the lists of the files one
  after the other, each whole if it has at most ten entries and cut to its first ten
  entries and the marker otherwise, and a build of the package that gets as far as
  parsing fails with this list.
\<close>

theorem parse_errors_capped_per_file:
  assumes "\<forall>name \<in> set (GoFiles pkg). canOpen (openAndParse env (resolveName env pkg name))"
    and "packageErrors env pkg \<noteq> []"
    and "UpToDateArchives s (ImportPath pkg) = None"
    and "buildImports (BuildPackage n env) env s (Dir pkg) (Imports pkg)
           (max (SrcModTime pkg) (exeModTime env)) = Some (s1, Inr t)"
    and "NoCache (options s1) \<or>
         LoadArchive (buildCache s1) (ImportPath pkg) (max t (FileModTime env pkg)) = None"
    and "parseOverlayFiles env pkg (IsTest pkg) = Inr overlays"
  shows "parserOriginalFiles env pkg = Inl (ErrorList (packageErrors env pkg)) \<and>
         BuildPackage (Suc n) env s pkg = Some (s1, Inl (ErrorList (packageErrors env pkg)))"
proof -
  have p: "parserOriginalFiles env pkg = Inl (ErrorList (packageErrors env pkg))"
    using assms(1) assms(2) by (rule parserOriginalFiles_errors)
  have "parseAndAugment env pkg (IsTest pkg) = Inl (ErrorList (packageErrors env pkg))"
    using p assms(6) by (simp add: parseAndAugment_def split: prod.splits)
  then show ?thesis
    using p BuildPackage_parse_failure[OF assms(3) assms(4) assms(5)] by simp
qed

theorem parse_errors_capped_per_file_witness:
  "parserOriginalFiles twoBadFilesEnv twoBadFilesPkg
     = Inl (ErrorList (packageErrors twoBadFilesEnv twoBadFilesPkg)) \<and>
   BuildPackage (Suc 0) twoBadFilesEnv (NewSession noOptions Map.empty) twoBadFilesPkg
     = Some (NewSession noOptions Map.empty,
             Inl (ErrorList (packageErrors twoBadFilesEnv twoBadFilesPkg)))"
proof (rule parse_errors_capped_per_file[where t = 1 and overlays = "([], [])"])
  show "\<forall>name \<in> set (GoFiles twoBadFilesPkg).
     canOpen (openAndParse twoBadFilesEnv (resolveName twoBadFilesEnv twoBadFilesPkg name))"
    by (rule twoBadFiles_open)
  show "packageErrors twoBadFilesEnv twoBadFilesPkg \<noteq> []"
    using twoBadFiles_errors by auto
  show "UpToDateArchives (NewSession noOptions Map.empty) (ImportPath twoBadFilesPkg) = None"
    by (simp add: NewSession_def)
  show "buildImports (BuildPackage 0 twoBadFilesEnv) twoBadFilesEnv (NewSession noOptions Map.empty)
          (Dir twoBadFilesPkg) (Imports twoBadFilesPkg)
          (max (SrcModTime twoBadFilesPkg) (exeModTime twoBadFilesEnv))
        = Some (NewSession noOptions Map.empty, Inr 1)"
    by (simp add: twoBadFilesPkg_def twoBadFilesEnv_def unixEnv_def NewPackageData_def)
  show "NoCache (options (NewSession noOptions Map.empty)) \<or>
        LoadArchive (buildCache (NewSession noOptions Map.empty)) (ImportPath twoBadFilesPkg)
          (max 1 (FileModTime twoBadFilesEnv twoBadFilesPkg)) = None"
    by (simp add: NewSession_def LoadArchive_def)
  show "parseOverlayFiles twoBadFilesEnv twoBadFilesPkg (IsTest twoBadFilesPkg) = Inr ([], [])"
    by (simp add: parseOverlayFiles_def twoBadFilesEnv_def unixEnv_def)
qed

text \<open>
  The claim as it is written fails: two files with eleven syntax errors each are reported
  as twenty-two entries.
\<close>

theorem parse_errors_cap_counterexample:
  "\<not> (\<forall>env pkg errs. parserOriginalFiles env pkg = Inl (ErrorList errs) \<longrightarrow> length errs \<le> 11)"
proof
  assume a: "\<forall>env pkg errs. parserOriginalFiles env pkg = Inl (ErrorList errs) \<longrightarrow> length errs \<le> 11"
  have "packageErrors twoBadFilesEnv twoBadFilesPkg \<noteq> []"
    using twoBadFiles_errors by auto
  with twoBadFiles_open
  have "parserOriginalFiles twoBadFilesEnv twoBadFilesPkg
          = Inl (ErrorList (packageErrors twoBadFilesEnv twoBadFilesPkg))"
    by (rule parserOriginalFiles_errors)
  with a have "length (packageErrors twoBadFilesEnv twoBadFilesPkg) \<le> 11" by blast
  then show False using twoBadFiles_errors by simp
qed

subsection \<open>Validation of the files given to \<open>BuildFiles\<close>\<close>

lemma two_dirs_length:
  assumes "a \<in> set xs" "b \<in> set xs" "a \<noteq> b"
  shows "length (sort (remdups xs)) \<noteq> 1"
proof
  assume "length (sort (remdups xs)) = 1"
  then have "card (set xs) = 1" by (simp add: length_remdups_card_conv)
  then obtain c where "set xs = {c}" by (auto simp: card_1_singleton_iff)
  with assms show False by auto
qed

text \<open>
  C10. \<open>BuildFiles\<close> checks its input before it builds anything, whatever the fuel: with
  no file names it returns the error "no input sources are provided" and leaves the
  session as it was; with two file names whose directories, made absolute against the
  working directory and cleaned, differ, it returns the error "named files must all be
  in one directory; have: ..." that lists the distinct directories in sorted order,
  and leaves the session as it was.
\<close>

theorem BuildFiles_validates_input:
  "BuildFiles fuel env s [] pkgObj cwd = Some (s, Some (Errorf ''no input sources are provided'')) \<and>
   (\<forall>a \<in> set filenames. \<forall>b \<in> set filenames.
      normalizedDir env cwd a \<noteq> normalizedDir env cwd b \<longrightarrow>
      (\<exists>dirs. BuildFiles fuel env s filenames pkgObj cwd =
                 Some (s, Some (Errorf (''named files must all be in one directory; have: ''
                                         @ joinStrings '', '' dirs)))
             \<and> sorted dirs \<and> distinct dirs
             \<and> set dirs = normalizedDir env cwd ` set filenames))"
proof (intro conjI ballI impI)
  show "BuildFiles fuel env s [] pkgObj cwd = Some (s, Some (Errorf ''no input sources are provided''))"
    by (simp add: BuildFiles_def)
next
  fix a b
  assume ab: "a \<in> set filenames" "b \<in> set filenames"
    "normalizedDir env cwd a \<noteq> normalizedDir env cwd b"
  let ?dirs = "sort (remdups (map (normalizedDir env cwd) filenames))"
  have ne: "filenames \<noteq> []" using ab by auto
  have "length ?dirs \<noteq> 1"
    using ab by (intro two_dirs_length[of "normalizedDir env cwd a" _ "normalizedDir env cwd b"]) auto
  then have "BuildFiles fuel env s filenames pkgObj cwd =
                 Some (s, Some (Errorf (''named files must all be in one directory; have: ''
                                         @ joinStrings '', '' ?dirs)))"
    using ne by (simp add: BuildFiles_def Let_def)
  moreover have "sorted ?dirs \<and> distinct ?dirs \<and> set ?dirs = normalizedDir env cwd ` set filenames"
    by simp
  ultimately show "\<exists>dirs. BuildFiles fuel env s filenames pkgObj cwd =
                 Some (s, Some (Errorf (''named files must all be in one directory; have: ''
                                         @ joinStrings '', '' dirs)))
             \<and> sorted dirs \<and> distinct dirs
             \<and> set dirs = normalizedDir env cwd ` set filenames"
    by blast
qed


lemma nd1: "normalizedDir unixEnv ''/w'' ''/a/x.go'' = ''/a''"
  by (simp add: normalizedDir_def unixEnv_def unixDir_def unixClean_def unixIsAbs_def unixJoin_def)
lemma nd2: "normalizedDir unixEnv ''/w'' ''b/y.go'' = ''/w/b''"
  by (simp add: normalizedDir_def unixEnv_def unixDir_def unixClean_def unixIsAbs_def unixJoin_def)

theorem BuildFiles_validates_input_witness:
  "normalizedDir unixEnv ''/w'' ''b/y.go'' \<noteq> normalizedDir unixEnv ''/w'' ''/a/x.go'' \<and>
   (\<exists>dirs. BuildFiles 0 unixEnv (NewSession noOptions Map.empty) [''b/y.go'', ''/a/x.go''] ''out.js'' ''/w'' =
                 Some (NewSession noOptions Map.empty,
                       Some (Errorf (''named files must all be in one directory; have: ''
                                         @ joinStrings '', '' dirs)))
             \<and> sorted dirs \<and> distinct dirs
             \<and> set dirs = normalizedDir unixEnv ''/w'' ` set [''b/y.go'', ''/a/x.go''])"
proof -
  have ne: "normalizedDir unixEnv ''/w'' ''b/y.go'' \<noteq> normalizedDir unixEnv ''/w'' ''/a/x.go''"
    by (simp add: nd1 nd2)
  have a: "''b/y.go'' \<in> set [''b/y.go'', ''/a/x.go'']" by simp
  have b: "''/a/x.go'' \<in> set [''b/y.go'', ''/a/x.go'']" by simp
  note all = conjunct2[OF BuildFiles_validates_input[of 0 unixEnv "NewSession noOptions Map.empty"
      "''out.js''" "''/w''" "[''b/y.go'', ''/a/x.go'']"]]
  from ne show ?thesis
    using all[THEN bspec, OF a, THEN bspec, OF b, THEN mp, OF ne] by (rule conjI)
qed

lemma BuildFiles_example:
  "BuildFiles 0 unixEnv (NewSession noOptions Map.empty) [''b/y.go'', ''/a/x.go''] ''out.js'' ''/w''
     = Some (NewSession noOptions Map.empty,
             Some (Errorf ''named files must all be in one directory; have: /a, /w/b''))"
  by (simp add: BuildFiles_def nd1 nd2 Let_def less_eq_char_def less_char_def)

subsection \<open>The startup sequence of the runtime bootstrap\<close>

lemma exampleProgram_startup:
  "startup exampleLoader exampleProgram =
     (\<lparr>packages = [(''runtime'', exampleRuntime), (''main'', exampleMain)], mainPkgName = ''main'',
       cacheLookupUrl = ''cache/'',
       trace = [Fetch ''cache/main.js'', SynthesizeMethods, InitLinknames exampleRuntime,
                Init exampleRuntime, Go (Some exampleMain), FlushConsole]\<rparr>, None)"
  by (simp add: startup_def getPackage_def getProperty_def objectPrototype_def loadScript_def
      exampleLoader_def exampleProgram_def initAllLinknames_def keys_def Let_def
      exampleRuntime_def exampleMain_def)

text \<open>
  C9. An entry package whose name is a member of the prototype of plain objects is not
  resolved as the startup sequence has it. The program with the entry package
  \<^verbatim>\<open>constructor\<close> has registered nothing, and the host serves the script of that package;
  yet the startup fetches no script for it and never registers it: it finalizes the method
  tables, runs no link-name hook, fetches and initializes the runtime-support package,
  hands \<^verbatim>\<open>undefined\<close> to \<^verbatim>\<open>$go\<close> in place of an initializer, flushes the console and
  ends without an error.
\<close>

theorem entry_package_not_fetched:
  "map_of (packages constructorProgram) (mainPkgName constructorProgram) = None \<and>
   exampleLoader ''cache/constructor.js'' (packages constructorProgram)
     = Some [(''runtime'', exampleRuntime), (''constructor'', exampleConstructor)] \<and>
   startup exampleLoader constructorProgram =
     (\<lparr>packages = [(''runtime'', exampleRuntime)], mainPkgName = ''constructor'',
       cacheLookupUrl = ''cache/'',
       trace = [SynthesizeMethods, Fetch ''cache/runtime.js'', Init exampleRuntime, Go None,
                FlushConsole]\<rparr>, None)"
  by (simp add: startup_def getPackage_def getProperty_def objectPrototype_def loadScript_def
      exampleLoader_def constructorProgram_def initAllLinknames_def keys_def Let_def
      exampleRuntime_def exampleConstructor_def)

subsection \<open>Function declarations through the augmentation\<close>

lemma funcsOf_Squeeze [simp]: "funcsOf (Squeeze ds) = funcsOf ds"
  by (induction ds rule: funcsOf.induct) simp_all

lemma funcsOf_Cons: "funcsOf (d # ds) = funcsOf [d] @ funcsOf ds"
  by (cases "d # ds" rule: funcsOf.cases) simp_all

lemma funcsOf_map:
  assumes "\<And>d. funcsOf [g d] = funcsOf [d]"
  shows "funcsOf (map g ds) = funcsOf ds"
proof (induction ds)
  case Nil
  then show ?case by simp
next
  case (Cons d ds)
  have "funcsOf (map g (d # ds)) = funcsOf [g d] @ funcsOf (map g ds)"
    using funcsOf_Cons[of "g d" "map g ds"] by simp
  also have "\<dots> = funcsOf [d] @ funcsOf ds" using assms Cons by simp
  finally show ?case using funcsOf_Cons[of d ds] by simp
qed

lemma funcsOf_finalizeDecl: "funcsOf [fst (finalizeDecl d)] = funcsOf [d]"
  by (cases d rule: finalizeDecl.cases) (simp_all add: Let_def)

lemma funcsOf_dropUnusedDecl: "funcsOf [dropUnusedDecl u d] = funcsOf [d]"
  by (cases "(u, d)" rule: dropUnusedDecl.cases) simp_all

lemma Squeeze_id: "None \<notin> set xs \<Longrightarrow> Squeeze xs = xs"
  by (induction xs rule: Squeeze.induct) simp_all

lemma finalizeDecl_unchanged: "\<not> snd (finalizeDecl d) \<Longrightarrow> fst (finalizeDecl d) \<noteq> None"
  by (cases d rule: finalizeDecl.cases) (auto simp add: Let_def split: if_splits)

lemma finalizeRemovals_Decls:
  "f_Decls (finalizeRemovals f) = Squeeze (map (fst \<circ> finalizeDecl) (f_Decls f))"
proof (cases "\<exists>d \<in> set (f_Decls f). snd (finalizeDecl d)")
  case True
  then show ?thesis by (auto simp add: finalizeRemovals_def Let_def)
next
  case False
  then have "None \<notin> set (map (fst \<circ> finalizeDecl) (f_Decls f))"
    using finalizeDecl_unchanged by fastforce
  then have "Squeeze (map (fst \<circ> finalizeDecl) (f_Decls f)) = map (fst \<circ> finalizeDecl) (f_Decls f)"
    by (rule Squeeze_id)
  then show ?thesis using False by (auto simp add: finalizeRemovals_def Let_def)
qed

lemma funcDecls_finalizeRemovals [simp]: "funcDecls (finalizeRemovals f) = funcDecls f"
  using funcsOf_map[of "fst \<circ> finalizeDecl" "f_Decls f"] funcsOf_finalizeDecl
  by (simp add: funcDecls_def finalizeRemovals_Decls)

lemma keepDirectiveImports_fields:
  "f_Decls (fst (keepDirectiveImports f todo unused)) = f_Decls f \<and>
   f_Imports (fst (keepDirectiveImports f todo unused)) = f_Imports f \<and>
   f_Comments (fst (keepDirectiveImports f todo unused)) = f_Comments f \<and>
   f_Doc (fst (keepDirectiveImports f todo unused)) = f_Doc f"
proof (induction f todo unused rule: keepDirectiveImports.induct)
  case (1 f unused)
  then show ?case by simp
next
  case (2 f name index rest unused)
  then show ?case
    by (simp add: HasDirectivePrefix_def split: option.splits)
qed

lemma isOnlyImports_funcs: "isOnlyImports f \<Longrightarrow> funcDecls f = []"
proof -
  have "list_all isImportDecl ds \<Longrightarrow> funcsOf ds = []" for ds
    by (induction ds rule: funcsOf.induct) simp_all
  then show "isOnlyImports f \<Longrightarrow> funcDecls f = []"
    by (simp add: isOnlyImports_def funcDecls_def)
qed

lemma pruneImports_cases:
  obtains (wiped) "isOnlyImports f" "\<not> HasDirectivePrefix f ''//go:linkname ''"
      "pruneImports f = f\<lparr>f_Imports := [], f_Decls := []\<rparr>"
  | (kept) f1 where "f_Decls f1 = f_Decls f" "f_Imports f1 = f_Imports f"
      "f_Comments f1 = f_Comments f" "f_Doc f1 = f_Doc f" "pruneImports f = f1"
  | (dropped) f1 unused where "f_Decls f1 = f_Decls f" "f_Imports f1 = f_Imports f"
      "f_Comments f1 = f_Comments f" "f_Doc f1 = f_Doc f"
      "\<not> (isOnlyImports f \<and> \<not> HasDirectivePrefix f ''//go:linkname '')"
      "(f1, unused) = keepDirectiveImports f
         (fold AList.delete (fileSelectors f) (collectUnused f [0 ..< length (f_Imports f)] []))
         (fold AList.delete (fileSelectors f) (collectUnused f [0 ..< length (f_Imports f)] []))"
      "unused \<noteq> []"
      "pruneImports f = finalizeRemovals
         (f1\<lparr>f_Decls := map (dropUnusedDecl (set (somes (map (\<lambda>(n, i). f_Imports f1 ! i) unused))))
                           (f_Decls f1),
             f_Imports := fold (\<lambda>(n, i) xs. xs[i := None]) unused (f_Imports f1)\<rparr>)"
proof (cases "isOnlyImports f \<and> \<not> HasDirectivePrefix f ''//go:linkname ''")
  case True
  then show ?thesis using wiped by (simp add: pruneImports_def)
next
  case False
  then have c: "(isOnlyImports f \<and> \<not> HasDirectivePrefix f ''//go:linkname '') = False" by blast
  define u1 where "u1 = fold AList.delete (fileSelectors f) (collectUnused f [0 ..< length (f_Imports f)] [])"
  obtain f1 unused where k: "keepDirectiveImports f u1 u1 = (f1, unused)"
    by (cases "keepDirectiveImports f u1 u1")
  have fl: "f_Decls f1 = f_Decls f" "f_Imports f1 = f_Imports f" "f_Comments f1 = f_Comments f"
    "f_Doc f1 = f_Doc f"
    using keepDirectiveImports_fields[of f u1 u1] k by simp_all
  have p: "pruneImports f =
     (if u1 = [] then f
      else if unused = [] then f1
      else finalizeRemovals
         (f1\<lparr>f_Decls := map (dropUnusedDecl (set (somes (map (\<lambda>(n, i). f_Imports f1 ! i) unused))))
                           (f_Decls f1),
             f_Imports := fold (\<lambda>(n, i) xs. xs[i := None]) unused (f_Imports f1)\<rparr>))"
    unfolding pruneImports_def Let_def c u1_def[symmetric] k by simp
  show ?thesis
  proof (cases "u1 = []")
    case True
    then have "pruneImports f = f" using p by simp
    then show ?thesis using kept[of f] by simp
  next
    case u: False
    show ?thesis
    proof (cases "unused = []")
      case True
      then have "pruneImports f = f1" using p u by simp
      then show ?thesis using kept[of f1] fl by simp
    next
      case un: False
      then have "pruneImports f = finalizeRemovals
         (f1\<lparr>f_Decls := map (dropUnusedDecl (set (somes (map (\<lambda>(n, i). f_Imports f1 ! i) unused))))
                           (f_Decls f1),
             f_Imports := fold (\<lambda>(n, i) xs. xs[i := None]) unused (f_Imports f1)\<rparr>)"
        using p u by simp
      moreover have "(f1, unused) = keepDirectiveImports f
         (fold AList.delete (fileSelectors f) (collectUnused f [0 ..< length (f_Imports f)] []))
         (fold AList.delete (fileSelectors f) (collectUnused f [0 ..< length (f_Imports f)] []))"
        using k by (simp add: u1_def)
      ultimately show ?thesis
        using dropped[of f1 unused] fl False un by blast
    qed
  qed
qed

lemma funcDecls_pruneImports [simp]: "funcDecls (pruneImports f) = funcDecls f"
proof (cases f rule: pruneImports_cases)
  case wiped
  then show ?thesis using isOnlyImports_funcs[of f] by (simp add: funcDecls_def)
next
  case (kept f1)
  then show ?thesis by (simp add: funcDecls_def)
next
  case (dropped f1 unused)
  then show ?thesis
    using funcsOf_map[of "dropUnusedDecl _" "f_Decls f"] funcsOf_dropUnusedDecl
    by (simp add: funcDecls_def[of f] funcDecls_def[of "f1\<lparr>f_Decls := _, f_Imports := _\<rparr>"])
qed

lemma funcsOf_original:
  "funcsOf (map (fst \<circ> originalDecl ovr) ds) = List.map_filter (rewriteFunc ovr) (funcsOf ds)"
proof (induction ds)
  case Nil
  then show ?case by (simp add: List.map_filter_simps)
next
  case (Cons d ds)
  show ?case
  proof (cases d)
    case None
    then show ?thesis using Cons by simp
  next
    case (Some x)
    show ?thesis
    proof (cases x)
      case (DFunc fd)
      then show ?thesis
        using Cons Some
        by (auto simp add: List.map_filter_simps rewriteFunc_def Let_def mangled_def
            spliceSignature_def split: option.splits)
    next
      case (DGen g)
      then show ?thesis using Cons Some by (simp add: Let_def)
    qed
  qed
qed

lemma funcDecls_augmentOriginalFile:
  "funcDecls (augmentOriginalFile f ovr) = List.map_filter (rewriteFunc ovr) (funcDecls f)"
proof -
  have "funcDecls (f\<lparr>f_Decls := map (fst \<circ> originalDecl ovr) (f_Decls f)\<rparr>)
          = List.map_filter (rewriteFunc ovr) (funcDecls f)"
    by (simp add: funcDecls_def funcsOf_original)
  then show ?thesis
    by (simp add: augmentOriginalFile_def Let_def)
qed

lemma funcDecls_augmentOriginalImports [simp]:
  "funcDecls (augmentOriginalImports importPath f) = funcDecls f"
  by (simp add: augmentOriginalImports_def funcDecls_def)

lemma augmentOverlayFiles_length [simp]:
  "length (fst (augmentOverlayFiles fs ovr)) = length fs"
  by (induction fs arbitrary: ovr) (simp_all add: split_beta Let_def)

lemma Augment_original:
  assumes "i < length originalFiles"
  shows "Augment importPath overlayFiles originalFiles ! (length overlayFiles + i) =
     (if overridesOf overlayFiles \<noteq> []
      then augmentOriginalFile (augmentOriginalImports importPath (originalFiles ! i))
             (overridesOf overlayFiles)
      else augmentOriginalImports importPath (originalFiles ! i))"
  using assms by (simp add: Augment_def overridesOf_def split_beta Let_def nth_append)

lemma rewriteFunc_empty [simp]: "rewriteFunc [] d = Some d"
  by (simp add: rewriteFunc_def)

lemma map_filter_Some [simp]: "List.map_filter Some xs = xs"
  by (induction xs) (simp_all add: List.map_filter_simps)

lemma Augment_original_funcs:
  assumes "i < length originalFiles"
  shows "funcDecls (Augment importPath overlayFiles originalFiles ! (length overlayFiles + i)) =
           List.map_filter (rewriteFunc (overridesOf overlayFiles)) (funcDecls (originalFiles ! i))"
proof (cases "overridesOf overlayFiles = []")
  case True
  have "List.map_filter (rewriteFunc []) (funcDecls (originalFiles ! i)) = funcDecls (originalFiles ! i)"
    by (simp add: rewriteFunc_empty[abs_def])
  then show ?thesis using True Augment_original[OF assms] by simp
next
  case False
  then show ?thesis
    using Augment_original[OF assms] by (simp add: funcDecls_augmentOriginalFile)
qed

subsection \<open>The override map of the overlay files\<close>

lemma applyWrites_simps [simp]:
  "applyWrites [] ovr = ovr"
  "applyWrites (w # ws) ovr = applyWrites ws (AList.update (fst w) (snd w) ovr)"
  "applyWrites (ws @ ws') ovr = applyWrites ws' (applyWrites ws ovr)"
  by (simp_all add: applyWrites_def)

lemma overlaySpec_writes:
  "snd (overlaySpec h pd sp ovr) = applyWrites (specWrites h pd sp) ovr"
proof (cases sp)
  case None
  then show ?thesis by simp
next
  case (Some x)
  show ?thesis
  proof (cases x)
    case (SImport a)
    then show ?thesis using Some by (simp add: Let_def)
  next
    case (SType s)
    then show ?thesis using Some by (simp add: Let_def)
  next
    case (SValue s)
    have "fold (\<lambda>name. AList.update name noInfo) ns ovr
            = applyWrites (map (\<lambda>name. (name, noInfo)) ns) ovr" for ns
      by (induction ns arbitrary: ovr) simp_all
    then show ?thesis using Some SValue by (simp add: Let_def)
  qed
qed

lemma overlaySpecs_writes:
  "snd (overlaySpecs h pd sps ovr) = applyWrites (concat (map (specWrites h pd) sps)) ovr"
proof (induction sps arbitrary: ovr)
  case Nil
  then show ?case by simp
next
  case (Cons sp sps)
  show ?case
    using Cons[of "snd (overlaySpec h pd sp ovr)"] overlaySpec_writes[of h pd sp ovr]
    by (simp add: split_beta Let_def)
qed

lemma overlayDecl_writes:
  "snd (overlayDecl h d ovr) = applyWrites (declWrites h d) ovr"
proof (cases d)
  case None
  then show ?thesis by simp
next
  case (Some x)
  show ?thesis
  proof (cases x)
    case (DFunc fd)
    then show ?thesis using Some by (simp add: Let_def)
  next
    case (DGen g)
    then show ?thesis
      using Some overlaySpecs_writes[of h "PurgeDecl (DGen g)" "gd_Specs g" ovr]
      by (cases "hasDirective (optl (gd_Doc g)) ''purge''") (simp_all add: Let_def split_beta)
  qed
qed

lemma overlayDecls_writes:
  "snd (overlayDecls h ds ovr) = applyWrites (concat (map (declWrites h) ds)) ovr"
proof (induction ds arbitrary: ovr)
  case Nil
  then show ?case by simp
next
  case (Cons d ds)
  show ?case
    using Cons[of "snd (overlayDecl h d ovr)"] overlayDecl_writes[of h d ovr]
    by (simp add: split_beta Let_def)
qed

lemma augmentOverlayFile_writes:
  "snd (augmentOverlayFile f ovr) = applyWrites (fileWrites f) ovr"
  using overlayDecls_writes[of "f_heap f" "f_Decls f" ovr]
  by (simp add: augmentOverlayFile_def fileWrites_def split_beta Let_def)

lemma augmentOverlayFiles_writes:
  "snd (augmentOverlayFiles fs ovr) = applyWrites (packageWrites fs) ovr"
proof (induction fs arbitrary: ovr)
  case Nil
  then show ?case by (simp add: packageWrites_def)
next
  case (Cons f fs)
  show ?case
    using Cons[of "snd (augmentOverlayFile f ovr)"] augmentOverlayFile_writes[of f ovr]
    by (simp add: split_beta Let_def packageWrites_def)
qed

lemma map_of_applyWrites:
  "map_of (applyWrites ws ovr) k =
     (case map_of (rev ws) k of Some v \<Rightarrow> Some v | None \<Rightarrow> map_of ovr k)"
proof (induction ws arbitrary: ovr)
  case Nil
  then show ?case by simp
next
  case (Cons w ws)
  show ?case
    using Cons[of "AList.update (fst w) (snd w) ovr"]
    by (auto simp add: update_conv' map_add_def split: option.splits)
qed

lemma overridesOf_lookup:
  "map_of (overridesOf fs) k = (if k = ''init'' then None else map_of (rev (packageWrites fs)) k)"
  by (simp add: overridesOf_def augmentOverlayFiles_writes map_of_applyWrites delete_conv'
      split: option.splits)

subsection \<open>Initializers and purged types\<close>

lemma subseq_filter_map_filter:
  assumes "\<And>x. P x \<Longrightarrow> g x = Some x"
  shows "subseq (filter P xs) (List.map_filter g xs)"
proof (induction xs)
  case Nil
  then show ?case by (simp add: List.map_filter_simps)
next
  case (Cons x xs)
  then show ?case
    using assms[of x] by (cases "g x") (auto simp add: List.map_filter_simps)
qed

lemma isInit_keys: "isInit d \<Longrightarrow> FuncKey d = ''init'' \<and> FuncReceiverKey d = []"
  by (simp add: isInit_def FuncKey_def FuncReceiverKey_def)

lemma rewriteFunc_init:
  assumes "isInit d" "map_of ovr ''init'' = None"
  shows "rewriteFunc ovr d = Some d"
  using assms isInit_keys[OF assms(1)] by (simp add: rewriteFunc_def split: option.splits)

text \<open>
  C5. The override map handed to the rewriting of the original files has no entry for
  \<^verbatim>\<open>init\<close>, whatever the overlay files declare, and the initializers of every original file
  stand in the merged output of that file as they were, in their order: none is removed,
  renamed or changed.
\<close>

theorem init_never_overridden:
  assumes "i < length originalFiles"
  shows "map_of (overridesOf overlayFiles) ''init'' = None \<and>
         subseq (filter isInit (funcDecls (originalFiles ! i)))
           (funcDecls (Augment importPath overlayFiles originalFiles ! (length overlayFiles + i)))"
proof -
  have n: "map_of (overridesOf overlayFiles) ''init'' = None"
    by (simp add: overridesOf_lookup)
  have "subseq (filter isInit (funcDecls (originalFiles ! i)))
          (List.map_filter (rewriteFunc (overridesOf overlayFiles)) (funcDecls (originalFiles ! i)))"
    using rewriteFunc_init[OF _ n] by (rule subseq_filter_map_filter)
  then show ?thesis
    using n Augment_original_funcs[OF assms] by simp
qed

lemma scenarioA_merged:
  "map funcDecls (Augment ''p'' [overlayA] [originalA]) =
     [[overlayF, overlayInit], [originalInit, mangled originalF]]"
  by (simp add: Augment_def augmentOverlayFile_def augmentOriginalFile_def overlayA_def originalA_def
      mkFile_def Let_def overlayF_def overlayInit_def originalF_def originalInit_def mkFunc_def
      KeepOriginal_def OverrideSignature_def hasDirective_def FuncKey_def FuncReceiverKey_def
      augmentOriginalImports_def nosyncPackages_def funcDecls_def mangled_def pruneImports_def
      finalizeRemovals_def isOnlyImports_def HasDirectivePrefix_def walkComments_def
      fileSelectors_def)

theorem init_never_overridden_witness:
  "0 < length [originalA] \<and> map_of (overridesOf [overlayA]) ''init'' = None \<and>
   subseq (filter isInit (funcDecls ([originalA] ! 0)))
     (funcDecls (Augment ''p'' [overlayA] [originalA] ! (length [overlayA] + 0)))"
proof -
  have l: "0 < length [originalA]" by simp
  from l init_never_overridden[OF l, of "[overlayA]" "''p''"] show ?thesis by (rule conjI)
qed

lemma map_filter_skip:
  assumes "\<And>x. P x \<Longrightarrow> g x = None"
  shows "List.map_filter g xs = List.map_filter g (filter (\<lambda>x. \<not> P x) xs)"
proof (induction xs)
  case Nil
  then show ?case by simp
next
  case (Cons x xs)
  then show ?case
    using assms[of x] by (cases "P x"; cases "g x") (simp_all add: List.map_filter_simps)
qed

lemma map_of_rev_once:
  assumes "length (filter (\<lambda>w. fst w = k) ws) = 1" "(k, v) \<in> set ws"
  shows "map_of (rev ws) k = Some v"
proof -
  from assms(1) obtain x where x: "filter (\<lambda>w. fst w = k) ws = [x]"
    by (cases "filter (\<lambda>w. fst w = k) ws") auto
  have "(k, v) \<in> set (filter (\<lambda>w. fst w = k) ws)" using assms(2) by simp
  then have xv: "x = (k, v)" using x by simp
  have "k \<in> fst ` set (rev ws)" using assms(2) by force
  then obtain v' where v': "map_of (rev ws) k = Some v'"
    by (metis map_of_eq_None_iff not_Some_eq)
  then have "(k, v') \<in> set ws" using map_of_SomeD by fastforce
  then have "(k, v') \<in> set (filter (\<lambda>w. fst w = k) ws)" by simp
  then have "v' = v" using x xv by simp
  then show ?thesis using v' by simp
qed

lemma purgesType_write:
  assumes "purgesType h T d"
  shows "\<exists>info. (T, info) \<in> set (declWrites h d) \<and> purgeMethods info"
proof -
  from assms obtain g where d: "d = Some (DGen g)"
    by (cases "(h, T, d)" rule: purgesType.cases) simp_all
  from assms d obtain sp where sp: "sp \<in> set (gd_Specs g)"
    and p: "(case sp of Some (SType s) \<Rightarrow> ts_Name s = T \<and> (PurgeDecl (DGen g) \<or> PurgeSpec h (SType s))
      | other \<Rightarrow> False)"
    unfolding d purgesType.simps list_ex_iff by blast
  from p obtain x where x: "sp = Some x" by (cases sp) simp_all
  from p x obtain s where s: "x = SType s" by (cases x) simp_all
  from p x s have n: "ts_Name s = T" and pg: "PurgeDecl (DGen g) \<or> PurgeSpec h (SType s)"
    by simp_all
  have "(T, noInfo\<lparr>purgeMethods := (PurgeDecl (DGen g) \<or> PurgeSpec h (SType s))\<rparr>)
          \<in> set (specWrites h (PurgeDecl (DGen g)) sp)"
    using x s n by simp
  then have "(T, noInfo\<lparr>purgeMethods := (PurgeDecl (DGen g) \<or> PurgeSpec h (SType s))\<rparr>)
          \<in> set (declWrites h d)"
    using d sp by auto
  moreover have "purgeMethods (noInfo\<lparr>purgeMethods := (PurgeDecl (DGen g) \<or> PurgeSpec h (SType s))\<rparr>)"
    using pg by simp
  ultimately show ?thesis by blast
qed

lemma purgedType_entry:
  assumes "purgedType overlayFiles T" "declaredOnce overlayFiles T" "T \<noteq> ''init''"
  shows "\<exists>info. map_of (overridesOf overlayFiles) T = Some info \<and> purgeMethods info"
proof -
  from assms(1) obtain f d where fd: "f \<in> set overlayFiles" "d \<in> set (f_Decls f)"
    "purgesType (f_heap f) T d"
    by (auto simp add: purgedType_def list_ex_iff)
  from purgesType_write[OF fd(3)] obtain info where
    info: "(T, info) \<in> set (declWrites (f_heap f) d)" "purgeMethods info" by blast
  have "(T, info) \<in> set (packageWrites overlayFiles)"
    using fd(1) fd(2) info(1) by (auto simp add: packageWrites_def fileWrites_def)
  then have "map_of (rev (packageWrites overlayFiles)) T = Some info"
    using assms(2) map_of_rev_once by (simp add: declaredOnce_def)
  then show ?thesis using assms(3) info(2) by (simp add: overridesOf_lookup)
qed

text \<open>
  C8. For a type \<open>T\<close> that the overlay files declare once and mark with the purge
  directive, the function declarations of the merged output of an original file are what
  the rewriting leaves of the original declarations other than the methods of \<open>T\<close>
  without an entry of their own in the override map: these methods are removed. A
  method of \<open>T\<close> with an entry of its own that says keep-original or carries an overriding
  signature is not deleted by the purge: what its own entry makes of it is in the output.
\<close>

theorem purge_removes_methods:
  assumes "i < length originalFiles"
    and "purgedType overlayFiles T"
    and "declaredOnce overlayFiles T"
    and "T \<noteq> []" and "T \<noteq> ''init''"
  shows "funcDecls (Augment importPath overlayFiles originalFiles ! (length overlayFiles + i)) =
           List.map_filter (rewriteFunc (overridesOf overlayFiles))
             (filter (\<lambda>d. \<not> (FuncReceiverKey d = T \<and> map_of (overridesOf overlayFiles) (FuncKey d) = None))
                (funcDecls (originalFiles ! i))) \<and>
         (\<forall>d \<in> set (funcDecls (originalFiles ! i)). \<forall>own.
            FuncReceiverKey d = T \<and> map_of (overridesOf overlayFiles) (FuncKey d) = Some own \<and>
            (keepOriginal own \<or> overrideSignature own \<noteq> None) \<longrightarrow>
            (\<exists>d'. rewriteFunc (overridesOf overlayFiles) d = Some d' \<and>
                  d' \<in> set (funcDecls (Augment importPath overlayFiles originalFiles
                                          ! (length overlayFiles + i)))))"
proof -
  let ?ovr = "overridesOf overlayFiles"
  from purgedType_entry[OF assms(2) assms(3) assms(5)] obtain info where
    info: "map_of ?ovr T = Some info" "purgeMethods info" by blast
  have gone: "FuncReceiverKey d = T \<and> map_of ?ovr (FuncKey d) = None \<Longrightarrow> rewriteFunc ?ovr d = None"
    for d
    using info assms(4) by (simp add: rewriteFunc_def)
  have out: "funcDecls (Augment importPath overlayFiles originalFiles ! (length overlayFiles + i)) =
           List.map_filter (rewriteFunc ?ovr) (funcDecls (originalFiles ! i))"
    by (rule Augment_original_funcs[OF assms(1)])
  have kept: "\<exists>d'. rewriteFunc ?ovr d = Some d' \<and> d' \<in> set (List.map_filter (rewriteFunc ?ovr) xs)"
    if "d \<in> set xs" "map_of ?ovr (FuncKey d) = Some own"
       "keepOriginal own \<or> overrideSignature own \<noteq> None" for d own xs
  proof -
    from that(2) that(3) obtain d' where d': "rewriteFunc ?ovr d = Some d'"
      by (cases "overrideSignature own") (simp_all add: rewriteFunc_def)
    then have "d' \<in> set (List.map_filter (rewriteFunc ?ovr) xs)"
      using that(1) by (auto simp add: List.map_filter_def intro!: image_eqI[where x = d])
    with d' show ?thesis by blast
  qed
  show ?thesis
  proof (intro conjI ballI allI impI)
    show "funcDecls (Augment importPath overlayFiles originalFiles ! (length overlayFiles + i)) =
           List.map_filter (rewriteFunc ?ovr)
             (filter (\<lambda>d. \<not> (FuncReceiverKey d = T \<and> map_of ?ovr (FuncKey d) = None))
                (funcDecls (originalFiles ! i)))"
      unfolding out
      by (rule map_filter_skip[where P = "\<lambda>d. FuncReceiverKey d = T \<and> map_of ?ovr (FuncKey d) = None"])
         (rule gone)
  next
    fix d own
    assume d: "d \<in> set (funcDecls (originalFiles ! i))"
      and o: "FuncReceiverKey d = T \<and> map_of ?ovr (FuncKey d) = Some own \<and>
            (keepOriginal own \<or> overrideSignature own \<noteq> None)"
    from o have o1: "map_of ?ovr (FuncKey d) = Some own"
      and o2: "keepOriginal own \<or> overrideSignature own \<noteq> None" by simp_all
    show "\<exists>d'. rewriteFunc ?ovr d = Some d' \<and>
                  d' \<in> set (funcDecls (Augment importPath overlayFiles originalFiles
                                          ! (length overlayFiles + i)))"
      unfolding out by (rule kept[OF d o1 o2])
  qed
qed

lemma purgeT_hyps:
  "purgedType [overlayPurgeT] ''T''" "declaredOnce [overlayPurgeT] ''T''"
  by (simp_all add: purgedType_def declaredOnce_def packageWrites_def fileWrites_def
      overlayPurgeT_def mkFile_def Let_def hasDirective_def)

theorem purge_removes_methods_witness:
  "0 < length [originalWithT] \<and> purgedType [overlayPurgeT] ''T'' \<and> declaredOnce [overlayPurgeT] ''T'' \<and>
   funcDecls (Augment ''p'' [overlayPurgeT] [originalWithT] ! (length [overlayPurgeT] + 0)) =
           List.map_filter (rewriteFunc (overridesOf [overlayPurgeT]))
             (filter (\<lambda>d. \<not> (FuncReceiverKey d = ''T'' \<and> map_of (overridesOf [overlayPurgeT]) (FuncKey d) = None))
                (funcDecls ([originalWithT] ! 0)))"
proof -
  have l: "0 < length [originalWithT]" by simp
  have a: "''T'' \<noteq> []" and b: "''T'' \<noteq> ''init''" by simp_all
  note t = purge_removes_methods[OF l purgeT_hyps(1) purgeT_hyps(2) a b, of "''p''", THEN conjunct1]
  show ?thesis using l purgeT_hyps t by (intro conjI)
qed

lemma purgeT_merged:
  "map funcDecls (Augment ''p'' [overlayPurgeT] [originalWithT]) = [[], [originalF]]"
  by (simp add: Augment_def augmentOverlayFile_def augmentOriginalFile_def overlayPurgeT_def
      originalWithT_def mkFile_def Let_def methodOfT_def originalF_def mkFunc_def
      hasDirective_def FuncKey_def FuncReceiverKey_def noInfo_def
      augmentOriginalImports_def nosyncPackages_def funcDecls_def pruneImports_def
      finalizeRemovals_def isOnlyImports_def HasDirectivePrefix_def walkComments_def
      fileSelectors_def)

subsection \<open>Steps of \<open>BuildPackage\<close>\<close>

lemma BuildPackage_memo:
  "UpToDateArchives s (ImportPath pkg) = Some archive \<Longrightarrow>
     BuildPackage (Suc n) env s pkg = Some (s, Inr (pkg, archive))"
  by simp

lemma SrcModTime_max:
  "(if SrcModTime pkg < x then pkg\<lparr>SrcModTime := x\<rparr> else pkg) = pkg\<lparr>SrcModTime := max (SrcModTime pkg) x\<rparr>"
  by (simp add: max_def)

lemma BuildPackage_unfold:
  assumes "UpToDateArchives s (ImportPath pkg) = None"
    and "buildImports (BuildPackage n env) env s (Dir pkg) (Imports pkg)
           (max (SrcModTime pkg) (exeModTime env)) = Some (s1, Inr t)"
  shows "BuildPackage (Suc n) env s pkg =
     (let pkg3 = pkg\<lparr>SrcModTime := max t (FileModTime env pkg)\<rparr>
      in case (if NoCache (options s1) then None
               else LoadArchive (buildCache s1) (ImportPath pkg) (SrcModTime pkg3)) of
           Some archive \<Rightarrow>
             Some (s1\<lparr>UpToDateArchives := (UpToDateArchives s1)(ImportPath pkg \<mapsto> archive),
                      Types := (Types s1)(ImportPath pkg \<mapsto> a_Name archive)\<rparr>,
                   Inr (pkg3, archive))
         | None \<Rightarrow>
            (case parseAndAugment env pkg (IsTest pkg) of
               Inl err \<Rightarrow> Some (s1, Inl err)
             | Inr (files, overlayJsFiles) \<Rightarrow>
                (case embedFiles env pkg3 files of
                   Inl err \<Rightarrow> Some (s1, Inl err)
                 | Inr embedFile \<Rightarrow>
                    (case Compile (ImportResolverFor (BuildPackage n env) env pkg3) env s1
                            (ImportPath pkg) (files @ optl embedFile) (Minify (options s1)) of
                       None \<Rightarrow> None
                     | Some (s2, Inl err) \<Rightarrow> Some (s2, Inl err)
                     | Some (s2, Inr archive0) \<Rightarrow>
                        (let archive = archive0\<lparr>a_IncJSCode := a_IncJSCode archive0
                               @ concat (map wrapJS (JSFiles pkg @ overlayJsFiles))\<rparr>;
                             s3 = (if Verbose (options s2)
                                   then s2\<lparr>Printed := Printed s2 @ [ImportPath pkg]\<rparr> else s2);
                             s4 = s3\<lparr>buildCache := StoreArchive (buildCache s3) archive (timeNow env)\<rparr>
                         in Some (s4\<lparr>UpToDateArchives :=
                                       (UpToDateArchives s4)(ImportPath pkg \<mapsto> archive)\<rparr>,
                                  Inr (pkg3, archive)))))))"
proof -
  have m2: "(if t < FileModTime env pkg then pkg\<lparr>SrcModTime := FileModTime env pkg\<rparr>
             else pkg\<lparr>SrcModTime := t\<rparr>) = pkg\<lparr>SrcModTime := max t (FileModTime env pkg)\<rparr>"
    by (simp add: max_def)
  show ?thesis
    using assms
    by (simp add: SrcModTime_max m2 Let_def split: option.splits sum.splits prod.splits)
qed

subsection \<open>Cache coherency across imports\<close>

lemma stale_import:
  "xctxImport staleEnv ''example/p'' dir = Inr (examplePackageData ''example/p'')"
  "xctxImport staleEnv ''example/q'' dir = Inr (examplePackageData ''example/q'')"
  by (simp_all add: staleEnv_def examplePackageData_def examplePackage_def)

lemma stale_fields:
  "exeModTime staleEnv = 1" "timeNow staleEnv = 20"
  "embedFiles staleEnv pkg files = Inr None"
  "frontEndImports staleEnv path files = []"
  "frontEnd staleEnv path files minify = Inr (exampleArchive path)"
  by (simp_all add: staleEnv_def unixEnv_def exampleArchive_def)

lemma stale_packages:
  "ImportPath (examplePackageData ''example/p'') = ''example/p''"
  "Dir (examplePackageData ''example/p'') = ''/src/p''"
  "Imports (examplePackageData ''example/p'') = []"
  "ImportPath (examplePackageData ''example/q'') = ''example/q''"
  "Dir (examplePackageData ''example/q'') = ''/src/q''"
  "Imports (examplePackageData ''example/q'') = [''example/p'']"
  "ImportPath (examplePackageData ''example/top'') = ''example/top''"
  "Dir (examplePackageData ''example/top'') = ''/src/top''"
  "Imports (examplePackageData ''example/top'') = [''example/p'', ''example/q'']"
  "SrcModTime (examplePackageData path) = 0"
  "IsTest (examplePackageData path) = False"
  "JSFiles (examplePackageData path) = []"
  by (simp_all add: examplePackageData_def examplePackage_def NewPackageData_def)

lemma stale_FileModTime:
  "FileModTime staleEnv (examplePackageData ''example/p'') = 10"
  "FileModTime staleEnv (examplePackageData ''example/q'') = 2"
  "FileModTime staleEnv (examplePackageData ''example/top'') = 2"
  by (simp_all add: FileModTime_def staleEnv_def unixEnv_def examplePackage_def
      examplePackageData_def NewPackageData_def)

lemma stale_parse:
  "\<exists>files. parseAndAugment staleEnv (examplePackageData ''example/p'') False = Inr (files, [])"
  "\<exists>files. parseAndAugment staleEnv (examplePackageData ''example/top'') False = Inr (files, [])"
  by (simp_all add: parseAndAugment_def parseOverlayFiles_def parserOriginalFiles_def staleEnv_def
      unixEnv_def Let_def examplePackageData_def examplePackage_def NewPackageData_def)

lemma stale_step_p:
  "BuildPackage (Suc n) staleEnv (NewSession noOptions staleCache) (examplePackageData ''example/p'')
     = Some (afterP, Inr ((examplePackageData ''example/p'')\<lparr>SrcModTime := 10\<rparr>,
                          exampleArchive ''example/p''))"
proof -
  obtain files where f: "parseAndAugment staleEnv (examplePackageData ''example/p'') False = Inr (files, [])"
    using stale_parse(1) by blast
  have m: "UpToDateArchives (NewSession noOptions staleCache) (ImportPath (examplePackageData ''example/p'')) = None"
    by (simp add: NewSession_def)
  have i: "buildImports (BuildPackage n staleEnv) staleEnv (NewSession noOptions staleCache)
            (Dir (examplePackageData ''example/p'')) (Imports (examplePackageData ''example/p''))
            (max (SrcModTime (examplePackageData ''example/p'')) (exeModTime staleEnv))
          = Some (NewSession noOptions staleCache, Inr 1)"
    by (simp add: stale_packages stale_fields)
  show ?thesis
    unfolding BuildPackage_unfold[OF m i]
    by (simp add: stale_packages stale_fields stale_FileModTime f LoadArchive_def staleCache_def
        NewSession_def noOptions_def Compile_def StoreArchive_def afterP_def exampleArchive_def
        Let_def pathBase_def)
qed


lemma stale_step_q:
  "BuildPackage (Suc (Suc n)) staleEnv afterP (examplePackageData ''example/q'')
     = Some (afterQ, Inr ((examplePackageData ''example/q'')\<lparr>SrcModTime := 2\<rparr>,
                          (exampleArchive ''example/q'')\<lparr>a_Code := ''built at 5''\<rparr>))"
proof -
  have m: "UpToDateArchives afterP (ImportPath (examplePackageData ''example/q'')) = None"
    by (simp add: afterP_def stale_packages)
  have p: "BuildPackage (Suc n) staleEnv afterP (examplePackageData ''example/p'')
             = Some (afterP, Inr (examplePackageData ''example/p'', exampleArchive ''example/p''))"
    by (rule BuildPackage_memo) (simp add: afterP_def stale_packages)
  have i: "buildImports (BuildPackage (Suc n) staleEnv) staleEnv afterP
            (Dir (examplePackageData ''example/q'')) (Imports (examplePackageData ''example/q''))
            (max (SrcModTime (examplePackageData ''example/q'')) (exeModTime staleEnv))
          = Some (afterP, Inr 1)"
    by (simp add: stale_packages stale_fields buildImportPathWithSrcDir_def stale_import p
        del: BuildPackage.simps)
  show ?thesis
    unfolding BuildPackage_unfold[OF m i]
    by (simp add: stale_packages stale_fields stale_FileModTime LoadArchive_def staleCache_def
        NewSession_def noOptions_def afterP_def afterQ_def exampleArchive_def Let_def pathBase_def)
qed

lemma stale_step_top:
  "BuildPackage (Suc (Suc (Suc n))) staleEnv (NewSession noOptions staleCache) topPackage
     = Some (afterQ\<lparr>UpToDateArchives := (UpToDateArchives afterQ)
                       (''example/top'' \<mapsto> exampleArchive ''example/top''),
                    Types := (Types afterQ)(''example/top'' \<mapsto> ''top''),
                    buildCache := (buildCache afterQ)
                       (''example/top'' \<mapsto> (20, exampleArchive ''example/top'')),
                    Compiled := [''example/p'', ''example/top'']\<rparr>,
             Inr (topPackage\<lparr>SrcModTime := 10\<rparr>, exampleArchive ''example/top''))"
proof -
  obtain files where f: "parseAndAugment staleEnv (examplePackageData ''example/top'') False = Inr (files, [])"
    using stale_parse(2) by blast
  have m: "UpToDateArchives (NewSession noOptions staleCache) (ImportPath topPackage) = None"
    by (simp add: NewSession_def)
  have i: "buildImports (BuildPackage (Suc (Suc n)) staleEnv) staleEnv (NewSession noOptions staleCache)
            (Dir topPackage) (Imports topPackage)
            (max (SrcModTime topPackage) (exeModTime staleEnv))
          = Some (afterQ, Inr 10)"
    by (simp add: topPackage_def stale_packages stale_fields buildImportPathWithSrcDir_def
        stale_import stale_step_p stale_step_q del: BuildPackage.simps)
  show ?thesis
    unfolding BuildPackage_unfold[OF m i]
    by (simp add: topPackage_def stale_packages stale_fields stale_FileModTime f LoadArchive_def
        staleCache_def NewSession_def noOptions_def Compile_def StoreArchive_def afterP_def
        afterQ_def exampleArchive_def Let_def pathBase_def)
qed

text \<open>
  C1 at the stale session. The build of \<^verbatim>\<open>example/top\<close> compiles \<^verbatim>\<open>example/p\<close> and
  \<^verbatim>\<open>example/top\<close> anew, but takes \<^verbatim>\<open>example/q\<close> from the on-disk cache as it was built at
  time 5, although \<^verbatim>\<open>example/q\<close> imports \<^verbatim>\<open>example/p\<close>, whose source file was modified at
  time 10: when \<^verbatim>\<open>example/q\<close> is built, \<^verbatim>\<open>example/p\<close> is already among the archives of the
  session, the build of \<^verbatim>\<open>example/p\<close> returns before it computes a modification time, and
  the new descriptor of \<^verbatim>\<open>example/p\<close> still has the zero time.
\<close>

theorem stale_import_not_propagated:
  "(case BuildPackage (Suc (Suc (Suc 0))) staleEnv (NewSession noOptions staleCache) topPackage of
      None \<Rightarrow> None
    | Some (s', r) \<Rightarrow> Some (Compiled s', UpToDateArchives s' ''example/q''))
   = Some ([''example/p'', ''example/top''],
           Some \<lparr>a_ImportPath = ''example/q'', a_Name = ''q'', a_Code = ''built at 5'',
                 a_IncJSCode = []\<rparr>)"
  unfolding stale_step_top
  by (simp add: afterQ_def afterP_def exampleArchive_def pathBase_def)

subsection \<open>Compiling each import path at most once\<close>







lemma pending_simps [simp]:
  "pending (s\<lparr>Types := ty\<rparr>) = pending s"
  "pending (s\<lparr>Printed := pr\<rparr>) = pending s"
  "pending (s\<lparr>buildCache := bc\<rparr>) = pending s"
  "pending (s\<lparr>Compiled := c\<rparr>) = set c - dom (UpToDateArchives s)"
  "pending (s\<lparr>UpToDateArchives := m\<rparr>) = set (Compiled s) - dom m"
  by (simp_all add: pending_def)


lemma below_SrcModTime [simp]: "below env rank (pkg\<lparr>SrcModTime := t\<rparr>) = below env rank pkg"
  by (simp add: below_def)
















subsection \<open>Value declarations through the augmentation\<close>

lemma removePairs_kept:
  assumes "length ns = length vs" and "None \<notin> set ns" and "None \<notin> set vs"
  shows "Squeeze (fst (fst (removePairs ovr ns vs)))
           = map fst (filter (notIn (\<lambda>n. map_of ovr n \<noteq> None)) (zip ns vs)) \<and>
         Squeeze (snd (fst (removePairs ovr ns vs)))
           = map snd (filter (notIn (\<lambda>n. map_of ovr n \<noteq> None)) (zip ns vs)) \<and>
         (None \<notin> set (fst (fst (removePairs ovr ns vs))) \<longrightarrow>
            fst (removePairs ovr ns vs) = (ns, vs) \<and>
            filter (notIn (\<lambda>n. map_of ovr n \<noteq> None)) (zip ns vs) = zip ns vs)"
  using assms
proof (induction ns vs rule: list_induct2)
  case Nil
  then show ?case by simp
next
  case (Cons n ns v vs)
  obtain name where n: "n = Some name" using Cons.prems(1) by (cases n) auto
  obtain val where v: "v = Some val" using Cons.prems(2) by (cases v) auto
  obtain ns' vs' c where r: "removePairs ovr ns vs = ((ns', vs'), c)"
    by (cases "removePairs ovr ns vs") auto
  have p: "None \<notin> set ns" "None \<notin> set vs" using Cons.prems by auto
  note ih = Cons.IH[OF p, unfolded r fst_conv snd_conv]
  show ?case
    using ih by (cases "map_of ovr name") (auto simp add: n v r notIn_def)
qed

lemma Squeeze_no_None: "None \<notin> set (Squeeze xs)"
  by (induction xs rule: Squeeze.induct) simp_all

lemma map_fst_zip_eq: "length xs = length ys \<Longrightarrow> map fst (zip xs ys) = xs \<and> map snd (zip xs ys) = ys"
  by (induction xs ys rule: list_induct2) simp_all

lemma originalSpec_multi:
  assumes "oneToOne s" and "asParsed s"
  shows "fst (finalizeSpec (fst (originalSpec ovr (Some (SValue s)))))
           = map_option SValue (keptSpec (\<lambda>n. map_of ovr n \<noteq> None) s)"
proof -
  let ?P = "notIn (\<lambda>n. map_of ovr n \<noteq> None)"
  obtain ns' vs' c where r: "removePairs ovr (vs_Names s) (vs_Values s) = ((ns', vs'), c)"
    by (cases "removePairs ovr (vs_Names s) (vs_Values s)") auto
  have l: "length (vs_Names s) = length (vs_Values s)" using assms(1) by (simp add: oneToOne_def)
  have k: "Squeeze ns' = map fst (keptPairs (\<lambda>n. map_of ovr n \<noteq> None) s)"
    "Squeeze vs' = map snd (keptPairs (\<lambda>n. map_of ovr n \<noteq> None) s)"
    "None \<notin> set ns' \<longrightarrow> (ns', vs') = (vs_Names s, vs_Values s) \<and>
       keptPairs (\<lambda>n. map_of ovr n \<noteq> None) s = zip (vs_Names s) (vs_Values s)"
    using removePairs_kept[OF l, of ovr, unfolded r fst_conv snd_conv] assms(2)
    by (auto simp add: asParsed_def keptPairs_def)
  have o: "fst (originalSpec ovr (Some (SValue s))) = Some (SValue (s\<lparr>vs_Names := ns', vs_Values := vs'\<rparr>))"
    using l r by simp
  show ?thesis
  proof (cases "None \<in> set ns'")
    case True
    then show ?thesis
      unfolding o using k(1,2) by (simp add: keptSpec_def Let_def)
  next
    case False
    then have e: "ns' = vs_Names s" "vs' = vs_Values s"
      "keptPairs (\<lambda>n. map_of ovr n \<noteq> None) s = zip (vs_Names s) (vs_Values s)"
      using k(3) by simp_all
    have "zip (vs_Names s) (vs_Values s) \<noteq> []"
      using assms(2) l by (cases "vs_Names s"; cases "vs_Values s") (simp_all add: asParsed_def)
    then show ?thesis
      unfolding o using e False map_fst_zip_eq[OF l] by (simp add: keptSpec_def)
  qed
qed

lemma blankName_None [simp]: "(blankName ovr x = None) = (x = None)"
  by (cases x) simp_all

lemma blankName_Some: "None \<notin> set ns \<Longrightarrow> None \<notin> set (map (blankName ovr) ns)"
  by (induction ns) (auto simp add: eq_commute[of None])

lemma originalSpec_single:
  assumes "\<not> oneToOne s" and "None \<notin> set (vs_Names s)"
  shows "filter oneToOne (valuesOfSpecs [fst (finalizeSpec (fst (originalSpec ovr (Some (SValue s)))))]) = []"
  using assms blankName_Some[OF assms(2), of ovr]
  by (auto simp add: oneToOne_def Let_def)

lemma valuesOfSpecs_Cons: "valuesOfSpecs (sp # sps) = valuesOfSpecs [sp] @ valuesOfSpecs sps"
  by (cases "sp # sps" rule: valuesOfSpecs.cases) simp_all

lemma valuesOfSpecs_Squeeze [simp]: "valuesOfSpecs (Squeeze sps) = valuesOfSpecs sps"
  by (induction sps rule: valuesOfSpecs.induct) simp_all

lemma map_filter_append: "List.map_filter g (xs @ ys) = List.map_filter g xs @ List.map_filter g ys"
  by (simp add: List.map_filter_def)

lemma originalSpec_values:
  assumes "list_all asParsed (valuesOfSpecs [sp])"
  shows "filter oneToOne (valuesOfSpecs [fst (finalizeSpec (fst (originalSpec ovr sp)))])
           = List.map_filter (keptSpec (\<lambda>n. map_of ovr n \<noteq> None)) (filter oneToOne (valuesOfSpecs [sp]))"
proof (cases sp)
  case None
  then show ?thesis by (simp add: List.map_filter_simps)
next
  case (Some x)
  show ?thesis
  proof (cases x)
    case (SImport a)
    then show ?thesis using Some by (simp add: List.map_filter_simps)
  next
    case (SType t)
    then show ?thesis using Some by (simp add: List.map_filter_simps)
  next
    case (SValue s)
    have p: "asParsed s" using assms Some SValue by simp
    show ?thesis
    proof (cases "oneToOne s")
      case True
      have r: "fst (finalizeSpec (fst (originalSpec ovr (Some (SValue s)))))
                 = map_option SValue (keptSpec (\<lambda>n. map_of ovr n \<noteq> None) s)"
        by (rule originalSpec_multi[OF True p])
      have k: "keptSpec (\<lambda>n. map_of ovr n \<noteq> None) s = Some s' \<Longrightarrow> oneToOne s'" for s'
        by (auto simp add: keptSpec_def oneToOne_def split: if_splits)
      show ?thesis
        unfolding Some SValue r using True k
        by (cases "keptSpec (\<lambda>n. map_of ovr n \<noteq> None) s") (simp_all add: List.map_filter_simps)
    next
      case False
      have "None \<notin> set (vs_Names s)" using p by (simp add: asParsed_def)
      then show ?thesis
        unfolding Some SValue using originalSpec_single[OF False, of ovr] False
        by (simp add: List.map_filter_simps)
    qed
  qed
qed

lemma originalSpecs_values:
  assumes "list_all asParsed (valuesOfSpecs sps)"
  shows "filter oneToOne (valuesOfSpecs (map (\<lambda>sp. fst (finalizeSpec (fst (originalSpec ovr sp)))) sps))
           = List.map_filter (keptSpec (\<lambda>n. map_of ovr n \<noteq> None)) (filter oneToOne (valuesOfSpecs sps))"
  using assms
proof (induction sps)
  case Nil
  then show ?case by (simp add: List.map_filter_simps)
next
  case (Cons sp sps)
  have a: "list_all asParsed (valuesOfSpecs [sp])" "list_all asParsed (valuesOfSpecs sps)"
    using Cons.prems valuesOfSpecs_Cons[of sp sps] by simp_all
  have "valuesOfSpecs (map (\<lambda>sp. fst (finalizeSpec (fst (originalSpec ovr sp)))) (sp # sps))
          = valuesOfSpecs [fst (finalizeSpec (fst (originalSpec ovr sp)))]
            @ valuesOfSpecs (map (\<lambda>sp. fst (finalizeSpec (fst (originalSpec ovr sp)))) sps)"
    using valuesOfSpecs_Cons[of "fst (finalizeSpec (fst (originalSpec ovr sp)))"
        "map (\<lambda>sp. fst (finalizeSpec (fst (originalSpec ovr sp)))) sps"] by simp
  then show ?case
    using originalSpec_values[OF a(1), of ovr] Cons.IH[OF a(2)] valuesOfSpecs_Cons[of sp sps]
    by (simp add: map_filter_append)
qed

lemma valuesOfDecl_finalizeDecl:
  "valuesOfDecl (fst (finalizeDecl (Some (DGen g)))) =
     (if gd_Tok g = IMPORT then [] else valuesOfSpecs (map (\<lambda>sp. fst (finalizeSpec sp)) (gd_Specs g)))"
proof -
  have "Squeeze sps = [] \<Longrightarrow> valuesOfSpecs sps = []" for sps
    using valuesOfSpecs_Squeeze[of sps] by simp
  then show ?thesis by (auto simp add: Let_def comp_def)
qed

lemma originalDecl_values:
  assumes "list_all asParsed (valuesOfDecl d)"
  shows "filter oneToOne (valuesOfDecl (fst (finalizeDecl (fst (originalDecl ovr d)))))
           = List.map_filter (keptSpec (\<lambda>n. map_of ovr n \<noteq> None)) (filter oneToOne (valuesOfDecl d))"
proof (cases d)
  case None
  then show ?thesis by (simp add: List.map_filter_simps)
next
  case (Some x)
  show ?thesis
  proof (cases x)
    case (DFunc fd)
    have "valuesOfDecl (fst (finalizeDecl (fst (originalDecl ovr (Some (DFunc fd)))))) = []"
      by (auto simp add: Let_def split: option.splits)
    then show ?thesis using Some DFunc by (simp add: List.map_filter_simps)
  next
    case (DGen g)
    have o: "fst (originalDecl ovr (Some (DGen g)))
               = Some (DGen (g\<lparr>gd_Specs := map (\<lambda>sp. fst (originalSpec ovr sp)) (gd_Specs g)\<rparr>))"
      by (simp add: Let_def comp_def)
    show ?thesis
    proof (cases "gd_Tok g = IMPORT")
      case True
      then show ?thesis
        unfolding Some DGen o valuesOfDecl_finalizeDecl by (simp add: List.map_filter_simps)
    next
      case False
      then have a: "list_all asParsed (valuesOfSpecs (gd_Specs g))"
        using assms Some DGen by simp
      show ?thesis
        unfolding Some DGen o valuesOfDecl_finalizeDecl
        using False originalSpecs_values[OF a, of ovr] by (simp add: comp_def)
    qed
  qed
qed

lemma valuesOf_Squeeze [simp]:
  "concat (map valuesOfDecl (Squeeze ds)) = concat (map valuesOfDecl ds)"
  by (induction ds rule: Squeeze.induct) simp_all

lemma originalDecls_values:
  assumes "list_all asParsed (concat (map valuesOfDecl ds))"
  shows "filter oneToOne (concat (map valuesOfDecl
            (map (\<lambda>d. fst (finalizeDecl (fst (originalDecl ovr d)))) ds)))
           = List.map_filter (keptSpec (\<lambda>n. map_of ovr n \<noteq> None))
               (filter oneToOne (concat (map valuesOfDecl ds)))"
  using assms
proof (induction ds)
  case Nil
  then show ?case by (simp add: List.map_filter_simps)
next
  case (Cons d ds)
  have a: "list_all asParsed (valuesOfDecl d)" "list_all asParsed (concat (map valuesOfDecl ds))"
    using Cons.prems by simp_all
  show ?case
    using originalDecl_values[OF a(1), of ovr] Cons.IH[OF a(2)]
    by (simp add: map_filter_append)
qed

lemma finalizeSpecs_clean:
  "list_all cleanNames (valuesOfSpecs (map (\<lambda>sp. fst (finalizeSpec sp)) sps))"
proof (induction sps)
  case Nil
  then show ?case by simp
next
  case (Cons sp sps)
  have "list_all cleanNames (valuesOfSpecs [fst (finalizeSpec sp)])"
    by (cases sp rule: finalizeSpec.cases)
      (auto simp add: Let_def cleanNames_def Squeeze_no_None)
  then show ?case
    using Cons valuesOfSpecs_Cons[of "fst (finalizeSpec sp)" "map (\<lambda>sp. fst (finalizeSpec sp)) sps"]
    by simp
qed

lemma finalizeSpecs_id:
  assumes "list_all cleanNames (valuesOfSpecs sps)"
  shows "valuesOfSpecs (map (\<lambda>sp. fst (finalizeSpec sp)) sps) = valuesOfSpecs sps"
  using assms
proof (induction sps)
  case Nil
  then show ?case by simp
next
  case (Cons sp sps)
  have a: "list_all cleanNames (valuesOfSpecs [sp])" "list_all cleanNames (valuesOfSpecs sps)"
    using Cons.prems valuesOfSpecs_Cons[of sp sps] by simp_all
  have "valuesOfSpecs [fst (finalizeSpec sp)] = valuesOfSpecs [sp]"
    using a(1) by (cases sp rule: finalizeSpec.cases) (auto simp add: Let_def cleanNames_def)
  then show ?case
    using Cons.IH[OF a(2)] valuesOfSpecs_Cons[of sp sps]
      valuesOfSpecs_Cons[of "fst (finalizeSpec sp)" "map (\<lambda>sp. fst (finalizeSpec sp)) sps"]
    by simp
qed

lemma finalizeDecl_clean: "list_all cleanNames (valuesOfDecl (fst (finalizeDecl d)))"
proof (cases d)
  case None
  then show ?thesis by simp
next
  case (Some x)
  then show ?thesis
    using finalizeSpecs_clean
    by (cases x) (simp_all add: valuesOfDecl_finalizeDecl del: finalizeDecl.simps(2))
qed

lemma finalizeDecl_id:
  assumes "list_all cleanNames (valuesOfDecl d)"
  shows "valuesOfDecl (fst (finalizeDecl d)) = valuesOfDecl d"
proof (cases d)
  case None
  then show ?thesis by simp
next
  case (Some x)
  then show ?thesis
    using assms finalizeSpecs_id
    by (cases x) (auto simp add: valuesOfDecl_finalizeDecl simp del: finalizeDecl.simps(2))
qed

lemma valueSpecs_finalizeRemovals:
  "valueSpecs (finalizeRemovals f) = concat (map (\<lambda>d. valuesOfDecl (fst (finalizeDecl d))) (f_Decls f))"
  by (simp add: valueSpecs_def finalizeRemovals_Decls comp_def)

lemma valueSpecs_finalizeRemovals_clean: "list_all cleanNames (valueSpecs (finalizeRemovals f))"
  unfolding valueSpecs_finalizeRemovals
  using finalizeDecl_clean by (induction "f_Decls f" arbitrary: f) (simp_all add: list_all_iff)

lemma valueSpecs_finalizeRemovals_id:
  assumes "list_all cleanNames (valueSpecs f)"
  shows "valueSpecs (finalizeRemovals f) = valueSpecs f"
proof -
  have "list_all cleanNames (concat (map valuesOfDecl ds)) \<Longrightarrow>
          concat (map (\<lambda>d. valuesOfDecl (fst (finalizeDecl d))) ds) = concat (map valuesOfDecl ds)" for ds
    by (induction ds) (simp_all add: finalizeDecl_id)
  then show ?thesis
    using assms unfolding valueSpecs_finalizeRemovals by (simp add: valueSpecs_def)
qed

lemma valuesOfSpecs_dropUnused:
  "valuesOfSpecs (map (dropUnusedSpec u) sps) = valuesOfSpecs sps"
proof (induction sps)
  case Nil
  then show ?case by simp
next
  case (Cons sp sps)
  have "valuesOfSpecs [dropUnusedSpec u sp] = valuesOfSpecs [sp]"
    by (cases "(u, sp)" rule: dropUnusedSpec.cases) simp_all
  then show ?case
    using Cons valuesOfSpecs_Cons[of sp sps]
      valuesOfSpecs_Cons[of "dropUnusedSpec u sp" "map (dropUnusedSpec u) sps"]
    by simp
qed

lemma valuesOfDecl_dropUnused: "valuesOfDecl (dropUnusedDecl u d) = valuesOfDecl d"
  by (cases "(u, d)" rule: dropUnusedDecl.cases) (simp_all add: valuesOfSpecs_dropUnused)

lemma isOnlyImports_values: "isOnlyImports f \<Longrightarrow> valueSpecs f = []"
proof -
  have "list_all isImportDecl ds \<Longrightarrow> concat (map valuesOfDecl ds) = []" for ds
  proof (induction ds)
    case Nil
    then show ?case by simp
  next
    case (Cons d ds)
    then show ?case by (cases d rule: isImportDecl.cases) simp_all
  qed
  then show "isOnlyImports f \<Longrightarrow> valueSpecs f = []"
    by (simp add: isOnlyImports_def valueSpecs_def)
qed

lemma valueSpecs_pruneImports:
  assumes "list_all cleanNames (valueSpecs f)"
  shows "valueSpecs (pruneImports f) = valueSpecs f"
proof (cases f rule: pruneImports_cases)
  case wiped
  then show ?thesis using isOnlyImports_values[of f] by (simp add: valueSpecs_def)
next
  case (kept f1)
  then show ?thesis by (simp add: valueSpecs_def)
next
  case (dropped f1 unused)
  define u where "u = set (somes (map (\<lambda>(n, i). f_Imports f1 ! i) unused))"
  define f2 where "f2 = f1\<lparr>f_Decls := map (dropUnusedDecl u) (f_Decls f1),
                           f_Imports := fold (\<lambda>(n, i) xs. xs[i := None]) unused (f_Imports f1)\<rparr>"
  have v: "valueSpecs f2 = valueSpecs f"
    by (simp add: f2_def valueSpecs_def dropped(1) comp_def valuesOfDecl_dropUnused)
  have "pruneImports f = finalizeRemovals f2" using dropped(8) by (simp add: f2_def u_def)
  then show ?thesis
    using valueSpecs_finalizeRemovals_id[of f2] assms v by simp
qed

lemma removePairs_unchanged:
  "\<not> snd (removePairs ovr ns vs) \<Longrightarrow> fst (removePairs ovr ns vs) = (ns, vs)"
  by (induction ovr ns vs rule: removePairs.induct)
    (auto simp add: split_beta Let_def split: option.splits if_splits)

lemma originalSpecs_unchanged:
  assumes "list_all asParsed (valuesOfSpecs sps)"
    and "\<forall>sp \<in> set sps. \<not> snd (originalSpec ovr sp)"
  shows "list_all cleanNames (valuesOfSpecs (map (\<lambda>sp. fst (originalSpec ovr sp)) sps))"
  using assms
proof (induction sps)
  case Nil
  then show ?case by simp
next
  case (Cons sp sps)
  have a: "list_all asParsed (valuesOfSpecs [sp])" "list_all asParsed (valuesOfSpecs sps)"
    using Cons.prems(1) valuesOfSpecs_Cons[of sp sps] by simp_all
  have n: "\<not> snd (originalSpec ovr sp)" using Cons.prems(2) by simp
  have "list_all cleanNames (valuesOfSpecs [fst (originalSpec ovr sp)])"
  proof (cases "(ovr, sp)" rule: originalSpec.cases)
    case (4 ovr' s)
    then have p: "asParsed s" using a(1) by simp
    show ?thesis
    proof (cases "length (vs_Names s) = length (vs_Values s)")
      case True
      then have "\<not> snd (removePairs ovr (vs_Names s) (vs_Values s))"
        using n 4 by (simp add: split_beta)
      then have "fst (removePairs ovr (vs_Names s) (vs_Values s)) = (vs_Names s, vs_Values s)"
        by (rule removePairs_unchanged)
      then show ?thesis using 4 True p by (simp add: split_beta cleanNames_def asParsed_def)
    next
      case False
      have "None \<notin> set (vs_Names s)" using p by (simp add: asParsed_def)
      then show ?thesis
        using 4 False blankName_Some[of "vs_Names s" ovr]
        by (auto simp add: Let_def cleanNames_def)
    qed
  qed simp_all
  then show ?case
    using Cons.IH[OF a(2)] Cons.prems(2)
      valuesOfSpecs_Cons[of "fst (originalSpec ovr sp)" "map (\<lambda>sp. fst (originalSpec ovr sp)) sps"]
    by simp
qed

lemma originalDecl_unchanged:
  assumes "list_all asParsed (valuesOfDecl d)" and "\<not> snd (originalDecl ovr d)"
  shows "list_all cleanNames (valuesOfDecl (fst (originalDecl ovr d)))"
proof (cases d)
  case None
  then show ?thesis by simp
next
  case (Some x)
  show ?thesis
  proof (cases x)
    case (DFunc fd)
    have "valuesOfDecl (fst (originalDecl ovr (Some (DFunc fd)))) = []"
      by (auto simp add: Let_def split: option.splits)
    then show ?thesis using Some DFunc by simp
  next
    case (DGen g)
    show ?thesis
    proof (cases "gd_Tok g = IMPORT")
      case True
      then show ?thesis using Some DGen by (simp add: Let_def)
    next
      case False
      have a: "list_all asParsed (valuesOfSpecs (gd_Specs g))"
        using assms(1) Some DGen False by simp
      have b: "\<forall>sp \<in> set (gd_Specs g). \<not> snd (originalSpec ovr sp)"
        using assms(2) Some DGen by (auto simp add: Let_def)
      show ?thesis
        using originalSpecs_unchanged[OF a b] Some DGen False by (simp add: Let_def comp_def)
    qed
  qed
qed

lemma augmentOriginalFile_values:
  assumes "list_all asParsed (valueSpecs f)"
  shows "filter oneToOne (valueSpecs (augmentOriginalFile f ovr))
           = List.map_filter (keptSpec (\<lambda>n. map_of ovr n \<noteq> None)) (filter oneToOne (valueSpecs f))"
proof -
  define f' where "f' = f\<lparr>f_Decls := map (\<lambda>d. fst (originalDecl ovr d)) (f_Decls f)\<rparr>"
  have A: "filter oneToOne (valueSpecs (finalizeRemovals f'))
             = List.map_filter (keptSpec (\<lambda>n. map_of ovr n \<noteq> None)) (filter oneToOne (valueSpecs f))"
  proof -
    have "valueSpecs (finalizeRemovals f')
            = concat (map (\<lambda>d. valuesOfDecl (fst (finalizeDecl d))) (f_Decls f'))"
      by (rule valueSpecs_finalizeRemovals)
    also have "\<dots> = concat (map valuesOfDecl
                 (map (\<lambda>d. fst (finalizeDecl (fst (originalDecl ovr d)))) (f_Decls f)))"
      by (simp add: f'_def comp_def)
    finally show ?thesis
      using originalDecls_values[of "f_Decls f" ovr] assms by (simp add: valueSpecs_def)
  qed
  show ?thesis
  proof (cases "\<exists>d \<in> set (f_Decls f). snd (originalDecl ovr d)")
    case True
    then have "augmentOriginalFile f ovr = pruneImports (finalizeRemovals f')"
      by (auto simp add: augmentOriginalFile_def Let_def f'_def comp_def)
    then show ?thesis
      using valueSpecs_pruneImports[OF valueSpecs_finalizeRemovals_clean[of f']] A by simp
  next
    case False
    then have e: "augmentOriginalFile f ovr = f'"
      by (auto simp add: augmentOriginalFile_def Let_def f'_def comp_def)
    have "list_all asParsed (concat (map valuesOfDecl ds)) \<Longrightarrow>
            \<forall>d \<in> set ds. \<not> snd (originalDecl ovr d) \<Longrightarrow>
            list_all cleanNames (concat (map (\<lambda>d. valuesOfDecl (fst (originalDecl ovr d))) ds))" for ds
      by (induction ds) (simp_all add: originalDecl_unchanged)
    then have "list_all cleanNames (valueSpecs f')"
      using assms False by (simp add: f'_def valueSpecs_def comp_def)
    then have "valueSpecs (finalizeRemovals f') = valueSpecs f'"
      by (rule valueSpecs_finalizeRemovals_id)
    then show ?thesis using A e by simp
  qed
qed

lemma overridden_lookup: "(map_of (overridesOf fs) n \<noteq> None) = overridden fs n"
proof -
  have "(map_of (rev (packageWrites fs)) n = None) = (n \<notin> fst ` set (packageWrites fs))"
    using map_of_eq_None_iff[of "rev (packageWrites fs)" n] by simp
  then show ?thesis by (auto simp add: overridesOf_lookup overridden_def)
qed

lemma keptSpec_none:
  assumes "asParsed s" and "oneToOne s" and "\<And>n. \<not> ov n"
  shows "keptSpec ov s = Some s"
proof -
  have l: "length (vs_Names s) = length (vs_Values s)" using assms(2) by (simp add: oneToOne_def)
  have "\<forall>p \<in> set (zip (vs_Names s) (vs_Values s)). notIn ov p"
  proof
    fix p
    assume "p \<in> set (zip (vs_Names s) (vs_Values s))"
    then have m: "fst p \<in> set (vs_Names s)"
      using set_zip_leftD[of "fst p" "snd p" "vs_Names s" "vs_Values s"] by simp
    have "None \<notin> set (vs_Names s)" using assms(1) by (simp add: asParsed_def)
    with m have "fst p \<noteq> None" by metis
    then obtain name where "fst p = Some name" by blast
    then show "notIn ov p" using assms(3) by (simp add: notIn_def)
  qed
  then have k: "keptPairs ov s = zip (vs_Names s) (vs_Values s)"
    by (simp add: keptPairs_def)
  have "zip (vs_Names s) (vs_Values s) \<noteq> []"
    using assms(1) l by (cases "vs_Names s"; cases "vs_Values s") (simp_all add: asParsed_def)
  then show ?thesis using k map_fst_zip_eq[OF l] by (simp add: keptSpec_def)
qed

lemma map_filter_id: "(\<And>x. x \<in> set xs \<Longrightarrow> g x = Some x) \<Longrightarrow> List.map_filter g xs = xs"
  by (induction xs) (simp_all add: List.map_filter_simps)

lemma valueSpecs_augmentOriginalImports [simp]:
  "valueSpecs (augmentOriginalImports importPath f) = valueSpecs f"
  by (simp add: augmentOriginalImports_def valueSpecs_def)

text \<open>
  C3. The value specifications in the multi-value context of an original file (each with
  a name and no missing name or expression, as the parser gives them) are, in the merged
  output, exactly those of the file with the pairs of an overridden name and its
  expression deleted: every pair whose name is not overridden stays, name and
  expression, in its place among the pairs that stay, and a specification goes only when
  all its names are overridden. So of \<^verbatim>\<open>var X, Y = 1, sideEffect()\<close> with \<^verbatim>\<open>X\<close> overridden,
  \<^verbatim>\<open>var Y = sideEffect()\<close> is left.
\<close>

theorem cobound_values_kept:
  assumes "i < length originalFiles"
    and "list_all asParsed (valueSpecs (originalFiles ! i))"
  shows "filter oneToOne
           (valueSpecs (Augment importPath overlayFiles originalFiles ! (length overlayFiles + i)))
         = List.map_filter (keptSpec (overridden overlayFiles))
             (filter oneToOne (valueSpecs (originalFiles ! i)))"
proof (cases "overridesOf overlayFiles = []")
  case True
  then have "\<not> overridden overlayFiles n" for n
    using overridden_lookup[of overlayFiles n] by simp
  then have "keptSpec (overridden overlayFiles) s = Some s"
    if "s \<in> set (filter oneToOne (valueSpecs (originalFiles ! i)))" for s
    using that assms(2) keptSpec_none[of s "overridden overlayFiles"] by (auto simp add: list_all_iff)
  then have "List.map_filter (keptSpec (overridden overlayFiles))
               (filter oneToOne (valueSpecs (originalFiles ! i)))
             = filter oneToOne (valueSpecs (originalFiles ! i))"
    by (rule map_filter_id)
  then show ?thesis using True Augment_original[OF assms(1)] by simp
next
  case False
  have a: "list_all asParsed (valueSpecs (augmentOriginalImports importPath (originalFiles ! i)))"
    using assms(2) by simp
  have "(\<lambda>n. map_of (overridesOf overlayFiles) n \<noteq> None) = overridden overlayFiles"
    by (intro ext) (rule overridden_lookup)
  then show ?thesis
    using False Augment_original[OF assms(1)]
      augmentOriginalFile_values[OF a, of "overridesOf overlayFiles"]
    by simp
qed

lemma scenarioB_overridden:
  "overridden [overlayB] n = (n = ''X'')"
  by (auto simp add: overridden_def packageWrites_def fileWrites_def overlayB_def mkFile_def mkVar_def
      mkValues_def Let_def)

theorem cobound_values_kept_witness:
  "0 < length [originalB] \<and> list_all asParsed (valueSpecs ([originalB] ! 0)) \<and>
   valueSpecs ([originalB] ! 0) = [mkValues [''X'', ''Y''] [''1'', ''sideEffect()'']] \<and>
   filter oneToOne (valueSpecs (Augment ''p'' [overlayB] [originalB] ! (length [overlayB] + 0)))
     = [mkValues [''Y''] [''sideEffect()'']]"
proof -
  have l: "0 < length [originalB]" by simp
  have v: "valueSpecs ([originalB] ! 0) = [mkValues [''X'', ''Y''] [''1'', ''sideEffect()'']]"
    by (simp add: valueSpecs_def originalB_def mkFile_def mkVar_def Let_def)
  have p: "list_all asParsed (valueSpecs ([originalB] ! 0))"
    unfolding v by (simp add: asParsed_def mkValues_def)
  have k: "List.map_filter (keptSpec (overridden [overlayB]))
             (filter oneToOne (valueSpecs ([originalB] ! 0))) = [mkValues [''Y''] [''sideEffect()'']]"
    unfolding v
    by (simp add: oneToOne_def mkValues_def List.map_filter_simps keptSpec_def keptPairs_def
        notIn_def scenarioB_overridden)
  show ?thesis
    using l p v cobound_values_kept[OF l p, of "''p''" "[overlayB]"] k by simp
qed

subsection \<open>Imports that a directive needs\<close>



subsection \<open>Functions kept under a mangled name\<close>

lemma funcsOf_overlayDecls:
  "funcsOf (fst (fst (overlayDecls h ds ovr)))
     = filter (\<lambda>d. \<not> PurgeDecl (DFunc d) \<and> \<not> OverrideSignature d) (funcsOf ds)"
proof (induction ds arbitrary: ovr)
  case Nil
  then show ?case by simp
next
  case (Cons d ds)
  show ?case
  proof (cases d)
    case None
    then show ?thesis using Cons by (simp add: split_beta Let_def)
  next
    case (Some x)
    show ?thesis
    proof (cases x)
      case (DFunc fd)
      then show ?thesis using Cons Some by (auto simp add: split_beta Let_def)
    next
      case (DGen g)
      then show ?thesis
        using Cons Some
        by (cases "hasDirective (optl (gd_Doc g)) ''purge''") (simp_all add: split_beta Let_def)
    qed
  qed
qed

lemma funcDecls_augmentOverlayFile:
  "funcDecls (fst (augmentOverlayFile f ovr))
     = filter (\<lambda>d. \<not> PurgeDecl (DFunc d) \<and> \<not> OverrideSignature d) (funcDecls f)"
proof -
  have "funcDecls (f\<lparr>f_Decls := fst (fst (overlayDecls (f_heap f) (f_Decls f) ovr))\<rparr>)
          = filter (\<lambda>d. \<not> PurgeDecl (DFunc d) \<and> \<not> OverrideSignature d) (funcDecls f)"
    by (simp add: funcDecls_def funcsOf_overlayDecls)
  then show ?thesis
    by (simp add: augmentOverlayFile_def split_beta Let_def)
qed

lemma allFuncs_augmentOverlayFiles:
  "allFuncs (fst (augmentOverlayFiles fs ovr))
     = filter (\<lambda>d. \<not> PurgeDecl (DFunc d) \<and> \<not> OverrideSignature d) (allFuncs fs)"
proof (induction fs arbitrary: ovr)
  case Nil
  then show ?case by (simp add: allFuncs_def)
next
  case (Cons f fs)
  show ?case
    using Cons[of "snd (augmentOverlayFile f ovr)"] funcDecls_augmentOverlayFile[of f ovr]
    by (simp add: allFuncs_def split_beta Let_def)
qed

lemma map_filter_concat:
  "List.map_filter g (concat xss) = concat (map (List.map_filter g) xss)"
  by (induction xss) (simp_all add: List.map_filter_simps map_filter_append)

lemma allFuncs_Augment:
  "allFuncs (Augment importPath overlayFiles originalFiles)
     = filter (\<lambda>d. \<not> PurgeDecl (DFunc d) \<and> \<not> OverrideSignature d) (allFuncs overlayFiles)
       @ List.map_filter (rewriteFunc (overridesOf overlayFiles)) (allFuncs originalFiles)"
proof -
  let ?ovr = "overridesOf overlayFiles"
  have o: "allFuncs (map (\<lambda>f. augmentOriginalFile f ?ovr)
                       (map (augmentOriginalImports importPath) originalFiles))
             = List.map_filter (rewriteFunc ?ovr) (allFuncs originalFiles)"
    by (simp add: allFuncs_def map_filter_concat comp_def funcDecls_augmentOriginalFile)
  have e: "?ovr = [] \<Longrightarrow>
             allFuncs (map (augmentOriginalImports importPath) originalFiles)
               = List.map_filter (rewriteFunc ?ovr) (allFuncs originalFiles)"
    by (simp add: allFuncs_def comp_def rewriteFunc_empty[abs_def])
  have "allFuncs (Augment importPath overlayFiles originalFiles)
          = allFuncs (fst (augmentOverlayFiles overlayFiles []))
            @ allFuncs (if ?ovr \<noteq> []
                        then map (\<lambda>f. augmentOriginalFile f ?ovr)
                               (map (augmentOriginalImports importPath) originalFiles)
                        else map (augmentOriginalImports importPath) originalFiles)"
    by (simp add: Augment_def overridesOf_def split_beta Let_def allFuncs_def)
  then show ?thesis
    using o e by (simp add: allFuncs_augmentOverlayFiles)
qed

lemma dotted_eq:
  assumes "c \<notin> set xs" and "c \<notin> set xs'" and "xs @ c # ys = xs' @ c # ys'"
  shows "xs = xs' \<and> ys = ys'"
proof -
  have t: "c \<notin> set zs \<Longrightarrow> takeWhile (\<lambda>x. x \<noteq> c) (zs @ c # ws) = zs" for zs ws
    by (induction zs) auto
  have "takeWhile (\<lambda>x. x \<noteq> c) (xs @ c # ys) = xs" "takeWhile (\<lambda>x. x \<noteq> c) (xs' @ c # ys') = xs'"
    using assms(1,2) t by blast+
  then have "xs = xs'" using assms(3) by simp
  then show ?thesis using assms(3) by simp
qed

lemma FuncKey_inj:
  assumes "CHR ''.'' \<notin> set (fd_Name d)" and "CHR ''.'' \<notin> set (FuncReceiverKey d)"
    and "CHR ''.'' \<notin> set (fd_Name d')" and "CHR ''.'' \<notin> set (FuncReceiverKey d')"
    and "FuncKey d = FuncKey d'"
  shows "fd_Name d = fd_Name d' \<and> FuncReceiverKey d = FuncReceiverKey d'"
proof (cases "FuncReceiverKey d = []")
  case True
  show ?thesis
  proof (cases "FuncReceiverKey d' = []")
    case t: True
    then show ?thesis using True assms(5) by (simp add: FuncKey_def)
  next
    case False
    then have "fd_Name d = FuncReceiverKey d' @ CHR ''.'' # fd_Name d'"
      using True assms(5) by (simp add: FuncKey_def)
    then have "CHR ''.'' \<in> set (fd_Name d)" by simp
    then show ?thesis using assms(1) by simp
  qed
next
  case False
  show ?thesis
  proof (cases "FuncReceiverKey d' = []")
    case True
    then have "fd_Name d' = FuncReceiverKey d @ CHR ''.'' # fd_Name d"
      using False assms(5) by (simp add: FuncKey_def)
    then have "CHR ''.'' \<in> set (fd_Name d')" by simp
    then show ?thesis using assms(3) by simp
  next
    case f: False
    then have "FuncReceiverKey d @ CHR ''.'' # fd_Name d = FuncReceiverKey d' @ CHR ''.'' # fd_Name d'"
      using False assms(5) by (simp add: FuncKey_def)
    then show ?thesis using dotted_eq[OF assms(2) assms(4)] by blast
  qed
qed

lemma mangled_fields [simp]:
  "fd_Name (mangled d) = ''_gopherjs_original_'' @ fd_Name d"
  "FuncReceiverKey (mangled d) = FuncReceiverKey d"
  "fd_Body (mangled d) = fd_Body d"
  by (simp_all add: mangled_def FuncReceiverKey_def)

lemma mangled_dotfree:
  "CHR ''.'' \<notin> set (fd_Name d) \<Longrightarrow> CHR ''.'' \<notin> set (fd_Name (mangled d))"
  by simp

lemma FuncKey_same:
  "fd_Name d = fd_Name d' \<Longrightarrow> FuncReceiverKey d = FuncReceiverKey d' \<Longrightarrow> FuncKey d = FuncKey d'"
  by (simp add: FuncKey_def)

lemma count_funcs_writes:
  "length (filter (\<lambda>d. FuncKey d = k) (funcsOf ds))
     \<le> length (filter (\<lambda>w. fst w = k) (concat (map (declWrites h) ds)))"
proof (induction ds)
  case Nil
  then show ?case by simp
next
  case (Cons d ds)
  show ?case
  proof (cases d)
    case None
    then show ?thesis using Cons by simp
  next
    case (Some x)
    then show ?thesis using Cons by (cases x) (simp_all add: le_SucI trans_le_add2)
  qed
qed

lemma count_allFuncs_writes:
  "length (filter (\<lambda>d. FuncKey d = k) (allFuncs fs))
     \<le> length (filter (\<lambda>w. fst w = k) (packageWrites fs))"
proof (induction fs)
  case Nil
  then show ?case by (simp add: allFuncs_def packageWrites_def)
next
  case (Cons f fs)
  have "length (filter (\<lambda>d. FuncKey d = k) (funcDecls f))
          \<le> length (filter (\<lambda>w. fst w = k) (fileWrites f))"
    using count_funcs_writes[of k "f_Decls f" "f_heap f"] by (simp add: funcDecls_def fileWrites_def)
  then show ?case
    using Cons by (simp add: allFuncs_def packageWrites_def)
qed

lemma funcs_write:
  assumes "d \<in> set (funcsOf ds)"
  shows "(FuncKey d, \<lparr>keepOriginal = KeepOriginal d, purgeMethods = False,
                       overrideSignature = (if OverrideSignature d then Some d else None)\<rparr>)
           \<in> set (concat (map (declWrites h) ds))"
  using assms
proof (induction ds)
  case Nil
  then show ?case by simp
next
  case (Cons x ds)
  show ?case
  proof (cases x)
    case None
    then show ?thesis using Cons by simp
  next
    case (Some y)
    then show ?thesis using Cons by (cases y) auto
  qed
qed

lemma allFuncs_write:
  assumes "d \<in> set (allFuncs fs)"
  shows "(FuncKey d, \<lparr>keepOriginal = KeepOriginal d, purgeMethods = False,
                       overrideSignature = (if OverrideSignature d then Some d else None)\<rparr>)
           \<in> set (packageWrites fs)"
proof -
  from assms obtain f where f: "f \<in> set fs" "d \<in> set (funcsOf (f_Decls f))"
    by (auto simp add: allFuncs_def funcDecls_def)
  have "(FuncKey d, \<lparr>keepOriginal = KeepOriginal d, purgeMethods = False,
                       overrideSignature = (if OverrideSignature d then Some d else None)\<rparr>)
          \<in> set (fileWrites f)"
    using funcs_write[OF f(2), of "f_heap f"] by (simp only: fileWrites_def)
  then show ?thesis
    unfolding packageWrites_def using f(1) by (simp only: set_concat set_map) blast
qed

lemma funcsOf_mem: "(d \<in> set (funcsOf ds)) = (Some (DFunc d) \<in> set ds)"
  by (induction ds rule: funcsOf.induct) auto

lemma specWrites_nosig:
  "(k, info) \<in> set (specWrites h pd sp) \<Longrightarrow> overrideSignature info = None"
  by (cases "(h, pd, sp)" rule: specWrites.cases) (auto simp add: noInfo_def)

lemma writes_sig:
  assumes "(k, info) \<in> set (packageWrites fs)" and "overrideSignature info = Some sig"
  shows "FuncKey sig = k \<and> sig \<in> set (allFuncs fs)"
proof -
  from assms(1) obtain f dd where f: "f \<in> set fs" "dd \<in> set (f_Decls f)"
    "(k, info) \<in> set (declWrites (f_heap f) dd)"
    by (auto simp add: packageWrites_def fileWrites_def)
  show ?thesis
  proof (cases dd)
    case None
    then show ?thesis using f(3) by simp
  next
    case (Some x)
    show ?thesis
    proof (cases x)
      case (DFunc fd)
      then have "sig = fd" "k = FuncKey fd"
        using f(3) Some assms(2) by (auto split: if_splits)
      moreover have "fd \<in> set (funcsOf (f_Decls f))"
        using f(2) Some DFunc by (simp add: funcsOf_mem)
      ultimately show ?thesis using f(1) by (auto simp add: allFuncs_def funcDecls_def)
    next
      case (DGen g)
      then show ?thesis
        using f(3) Some assms(2) specWrites_nosig by fastforce
    qed
  qed
qed

lemma entry_sig:
  assumes "map_of (overridesOf fs) k = Some info" and "overrideSignature info = Some sig"
  shows "FuncKey sig = k \<and> sig \<in> set (allFuncs fs)"
proof -
  have "map_of (rev (packageWrites fs)) k = Some info"
    using assms(1) by (simp add: overridesOf_lookup split: if_splits)
  then have "(k, info) \<in> set (packageWrites fs)"
    using map_of_SomeD by fastforce
  then show ?thesis using assms(2) by (rule writes_sig)
qed

lemma rewriteFunc_key:
  assumes d: "CHR ''.'' \<notin> set (fd_Name d)" "CHR ''.'' \<notin> set (FuncReceiverKey d)"
    and ov: "\<And>sig. sig \<in> set (allFuncs overlayFiles) \<Longrightarrow> plainName sig"
    and r: "rewriteFunc (overridesOf overlayFiles) d = Some d'"
  shows "(FuncKey d' = FuncKey d \<and>
            (map_of (overridesOf overlayFiles) (FuncKey d) = None \<or>
             (\<exists>info. map_of (overridesOf overlayFiles) (FuncKey d) = Some info \<and> \<not> keepOriginal info)))
         \<or> (\<exists>info. map_of (overridesOf overlayFiles) (FuncKey d) = Some info \<and> keepOriginal info \<and>
                FuncKey d' = FuncKey (mangled d) \<and> (overrideSignature info = None \<longrightarrow> d' = mangled d))"
proof (cases "map_of (overridesOf overlayFiles) (FuncKey d)")
  case None
  then have "d' = d" using r by (auto simp add: rewriteFunc_def split: option.splits if_splits)
  then show ?thesis using None by simp
next
  case (Some info)
  show ?thesis
  proof (cases "overrideSignature info")
    case None
    then have "keepOriginal info" "d' = mangled d"
      using r Some by (auto simp add: rewriteFunc_def split: if_splits)
    then show ?thesis using Some by simp
  next
    case sg: (Some sig)
    have s: "FuncKey sig = FuncKey d" "sig \<in> set (allFuncs overlayFiles)"
      using entry_sig[OF Some sg] by simp_all
    have p: "CHR ''.'' \<notin> set (fd_Name sig)" "CHR ''.'' \<notin> set (FuncReceiverKey sig)"
      using ov[OF s(2)] by (simp_all add: plainName_def)
    have e: "FuncReceiverKey sig = FuncReceiverKey d"
      using FuncKey_inj[OF p d s(1)] by simp
    have d': "d' = spliceSignature sig (if keepOriginal info then mangled d else d)"
      using r Some sg by (simp add: rewriteFunc_def)
    have rk: "FuncReceiverKey d' = FuncReceiverKey d"
      using e by (simp add: d' spliceSignature_def FuncReceiverKey_def)
    show ?thesis
    proof (cases "keepOriginal info")
      case True
      then have "fd_Name d' = fd_Name (mangled d)" by (simp add: d' spliceSignature_def)
      then have "FuncKey d' = FuncKey (mangled d)" using rk by (intro FuncKey_same) simp_all
      then show ?thesis using Some True sg by simp
    next
      case False
      then have "fd_Name d' = fd_Name d" by (simp add: d' spliceSignature_def)
      then have "FuncKey d' = FuncKey d" using rk by (intro FuncKey_same) simp_all
      then show ?thesis using Some False by simp
    qed
  qed
qed

lemma filter_map_filter:
  assumes "\<And>x. x \<in> set xs \<Longrightarrow> Q x \<Longrightarrow> \<exists>y. g x = Some y \<and> P y"
    and "\<And>x y. x \<in> set xs \<Longrightarrow> g x = Some y \<Longrightarrow> P y \<Longrightarrow> Q x"
  shows "filter P (List.map_filter g xs) = List.map_filter g (filter Q xs)"
  using assms
proof (induction xs)
  case Nil
  then show ?case by (simp add: List.map_filter_simps)
next
  case (Cons x xs)
  have ih: "filter P (List.map_filter g xs) = List.map_filter g (filter Q xs)"
    by (rule Cons.IH) (use Cons.prems in auto)
  show ?case
  proof (cases "Q x")
    case True
    then obtain y where "g x = Some y" "P y" using Cons.prems(1)[of x] by auto
    then show ?thesis using True ih by (simp add: List.map_filter_simps)
  next
    case False
    then show ?thesis
      using ih Cons.prems(2)[of x] by (cases "g x") (auto simp add: List.map_filter_simps)
  qed
qed

lemma prefix_mangled: "prefix ''_gopherjs_original_'' (''_gopherjs_original_'' @ n)"
  by (rule prefixI) simp

text \<open>
  C2. Take a function declaration of the overlay files that carries the keep-original
  directive and neither the purge nor the override-signature directive, whose identity
  key is not \<^verbatim>\<open>init\<close>, is entered once by the overlay files and is the key of one function
  declaration of the original files. Then, the names being identifiers of which none is
  in the mangled form already, the merged output has exactly one function declaration
  under the mangled key, and it is the original declaration with the mangled name (its
  body is the original's), and exactly one under the original key, and it is the
  overlay's declaration.
\<close>

theorem keep_original_renames:
  assumes od: "od \<in> set (allFuncs overlayFiles)"
    and keep: "KeepOriginal od" and np: "\<not> PurgeDecl (DFunc od)" and ns: "\<not> OverrideSignature od"
    and ni: "FuncKey od \<noteq> ''init''"
    and once: "declaredOnce overlayFiles (FuncKey od)"
    and d0: "filter (\<lambda>d. FuncKey d = FuncKey od) (allFuncs originalFiles) = [d0]"
    and plain: "list_all plainName (allFuncs overlayFiles @ allFuncs originalFiles)"
  shows "filter (\<lambda>d. FuncKey d = FuncKey (mangled d0))
           (allFuncs (Augment importPath overlayFiles originalFiles)) = [mangled d0] \<and>
         fd_Body (mangled d0) = fd_Body d0 \<and>
         filter (\<lambda>d. FuncKey d = FuncKey od)
           (allFuncs (Augment importPath overlayFiles originalFiles)) = [od]"
proof -
  let ?ovr = "overridesOf overlayFiles"
  let ?K = "FuncKey od"
  let ?M = "FuncKey (mangled d0)"
  let ?kept = "\<lambda>d. \<not> PurgeDecl (DFunc d) \<and> \<not> OverrideSignature d"
  let ?info = "\<lparr>keepOriginal = True, purgeMethods = False, overrideSignature = None\<rparr>"
  have pov: "\<And>d. d \<in> set (allFuncs overlayFiles) \<Longrightarrow> plainName d"
    and por: "\<And>d. d \<in> set (allFuncs originalFiles) \<Longrightarrow> plainName d"
    using plain by (auto simp add: list_all_iff)
  have d0in: "d0 \<in> set (allFuncs originalFiles)" and d0k: "FuncKey d0 = ?K"
  proof -
    have "d0 \<in> set (filter (\<lambda>d. FuncKey d = ?K) (allFuncs originalFiles))" using d0 by simp
    then show "d0 \<in> set (allFuncs originalFiles)" "FuncKey d0 = ?K" by simp_all
  qed
  have dot: "CHR ''.'' \<notin> set (fd_Name d) \<and> CHR ''.'' \<notin> set (FuncReceiverKey d)"
    if "plainName d" for d using that by (simp add: plainName_def)
  have nopre: "\<not> prefix ''_gopherjs_original_'' (fd_Name d)" if "plainName d" for d
    using that by (simp add: plainName_def)
  have mdot: "CHR ''.'' \<notin> set (fd_Name (mangled d)) \<and> CHR ''.'' \<notin> set (FuncReceiverKey (mangled d))"
    if "plainName d" for d using dot[OF that] by simp
  have notM: "FuncKey d \<noteq> FuncKey (mangled d1)" if "plainName d" "plainName d1" for d d1
  proof
    assume "FuncKey d = FuncKey (mangled d1)"
    then have "fd_Name d = fd_Name (mangled d1)"
      using FuncKey_inj[of d "mangled d1"] dot[OF that(1)] mdot[OF that(2)] by blast
    then show False using nopre[OF that(1)] prefix_mangled by simp
  qed
  have Minj: "FuncKey d = FuncKey d1" if "FuncKey (mangled d) = FuncKey (mangled d1)"
    "plainName d" "plainName d1" for d d1
  proof -
    have "fd_Name (mangled d) = fd_Name (mangled d1) \<and> FuncReceiverKey (mangled d) = FuncReceiverKey (mangled d1)"
      using FuncKey_inj[of "mangled d" "mangled d1"] mdot[OF that(2)] mdot[OF that(3)] that(1) by blast
    then show ?thesis by (intro FuncKey_same) simp_all
  qed
  have Msame: "FuncKey (mangled d) = FuncKey (mangled d1)" if "FuncKey d = FuncKey d1"
    "plainName d" "plainName d1" for d d1
  proof -
    have "fd_Name d = fd_Name d1 \<and> FuncReceiverKey d = FuncReceiverKey d1"
      using FuncKey_inj[of d d1] dot[OF that(2)] dot[OF that(3)] that(1) by blast
    then show ?thesis by (intro FuncKey_same) simp_all
  qed
  have w: "(?K, ?info) \<in> set (packageWrites overlayFiles)"
    using allFuncs_write[OF od] keep ns by simp
  have "map_of (rev (packageWrites overlayFiles)) ?K = Some ?info"
    using once w map_of_rev_once by (simp add: declaredOnce_def)
  then have e: "map_of ?ovr ?K = Some ?info" using ni by (simp add: overridesOf_lookup)
  have "length (filter (\<lambda>d. FuncKey d = ?K) (allFuncs overlayFiles)) \<le> 1"
    using count_allFuncs_writes[of ?K overlayFiles] once by (simp add: declaredOnce_def)
  moreover have "od \<in> set (filter (\<lambda>d. FuncKey d = ?K) (allFuncs overlayFiles))" using od by simp
  ultimately have ov1: "filter (\<lambda>d. FuncKey d = ?K) (allFuncs overlayFiles) = [od]"
    by (cases "filter (\<lambda>d. FuncKey d = ?K) (allFuncs overlayFiles)") auto
  have comm: "filter P (filter Q xs) = filter Q (filter P xs)" for P Q and xs :: "FuncDecl list"
    by (induction xs) auto
  have ovK: "filter (\<lambda>d. FuncKey d = ?K) (filter ?kept (allFuncs overlayFiles)) = [od]"
    using comm[of "\<lambda>d. FuncKey d = ?K" ?kept "allFuncs overlayFiles"] ov1 np ns by simp
  have ovM: "filter (\<lambda>d. FuncKey d = ?M) (filter ?kept (allFuncs overlayFiles)) = []"
    using notM[OF pov por[OF d0in]] by (auto simp add: filter_empty_conv)
  have cases: "(FuncKey d' = FuncKey d \<and>
            (map_of ?ovr (FuncKey d) = None \<or>
             (\<exists>info. map_of ?ovr (FuncKey d) = Some info \<and> \<not> keepOriginal info)))
         \<or> (\<exists>info. map_of ?ovr (FuncKey d) = Some info \<and> keepOriginal info \<and>
                FuncKey d' = FuncKey (mangled d) \<and> (overrideSignature info = None \<longrightarrow> d' = mangled d))"
    if "d \<in> set (allFuncs originalFiles)" "rewriteFunc ?ovr d = Some d'" for d d'
    using rewriteFunc_key[of d overlayFiles d'] dot[OF por[OF that(1)]] pov that(2) by blast
  have orK: "filter (\<lambda>d. FuncKey d = ?K) (List.map_filter (rewriteFunc ?ovr) (allFuncs originalFiles)) = []"
  proof -
    have "FuncKey d' \<noteq> ?K" if "d \<in> set (allFuncs originalFiles)" "rewriteFunc ?ovr d = Some d'" for d d'
    proof
      assume k: "FuncKey d' = ?K"
      from cases[OF that] show False
      proof (elim disjE conjE exE)
        assume "FuncKey d' = FuncKey d" "map_of ?ovr (FuncKey d) = None"
        then show False using k e by simp
      next
        fix info
        assume "FuncKey d' = FuncKey d" "map_of ?ovr (FuncKey d) = Some info" "\<not> keepOriginal info"
        then show False using k e by simp
      next
        fix info
        assume "FuncKey d' = FuncKey (mangled d)"
        then show False using k notM[OF pov[OF od] por[OF that(1)]] by simp
      qed
    qed
    then show ?thesis
      by (auto simp add: filter_empty_conv List.map_filter_def)
  qed
  have g0: "rewriteFunc ?ovr d = Some (mangled d)" if "FuncKey d = ?K" for d
    using that e by (simp add: rewriteFunc_def)
  have "filter (\<lambda>d. FuncKey d = ?M) (List.map_filter (rewriteFunc ?ovr) (allFuncs originalFiles))
          = List.map_filter (rewriteFunc ?ovr) (filter (\<lambda>d. FuncKey d = ?K) (allFuncs originalFiles))"
  proof (rule filter_map_filter)
    fix x
    assume x: "x \<in> set (allFuncs originalFiles)" "FuncKey x = ?K"
    have "FuncKey (mangled x) = ?M"
      using Msame[OF _ por[OF x(1)] por[OF d0in]] x(2) d0k by simp
    then show "\<exists>y. rewriteFunc ?ovr x = Some y \<and> FuncKey y = ?M"
      using g0[OF x(2)] by simp
  next
    fix x y
    assume x: "x \<in> set (allFuncs originalFiles)" "rewriteFunc ?ovr x = Some y" "FuncKey y = ?M"
    from cases[OF x(1,2)] show "FuncKey x = ?K"
    proof (elim disjE conjE exE)
      assume "FuncKey y = FuncKey x" "map_of ?ovr (FuncKey x) = None"
      then show ?thesis using x(3) notM[OF por[OF x(1)] por[OF d0in]] by simp
    next
      fix info
      assume "FuncKey y = FuncKey x" "map_of ?ovr (FuncKey x) = Some info"
      then show ?thesis using x(3) notM[OF por[OF x(1)] por[OF d0in]] by simp
    next
      fix info
      assume "FuncKey y = FuncKey (mangled x)"
      then have "FuncKey (mangled x) = FuncKey (mangled d0)" using x(3) by simp
      then show ?thesis using Minj[OF _ por[OF x(1)] por[OF d0in]] d0k by simp
    qed
  qed
  then have orM: "filter (\<lambda>d. FuncKey d = ?M) (List.map_filter (rewriteFunc ?ovr) (allFuncs originalFiles))
                    = [mangled d0]"
    using d0 g0[OF d0k] by (simp add: List.map_filter_simps)
  show ?thesis
    using ovK ovM orK orM by (simp add: allFuncs_Augment)
qed

lemma scenarioA_funcs:
  "allFuncs [overlayA] = [overlayF, overlayInit]" "allFuncs [originalA] = [originalInit, originalF]"
  by (simp_all add: allFuncs_def funcDecls_def overlayA_def originalA_def mkFile_def Let_def)

lemma scenarioA_keys:
  "FuncKey overlayF = ''F''" "FuncKey overlayInit = ''init''" "FuncKey originalF = ''F''"
  "FuncKey originalInit = ''init''"
  by (simp_all add: FuncKey_def FuncReceiverKey_def overlayF_def overlayInit_def originalF_def
      originalInit_def mkFunc_def)

theorem keep_original_renames_witness:
  "overlayF \<in> set (allFuncs [overlayA]) \<and> KeepOriginal overlayF \<and>
   filter (\<lambda>d. FuncKey d = FuncKey overlayF) (allFuncs [originalA]) = [originalF] \<and>
   filter (\<lambda>d. FuncKey d = FuncKey (mangled originalF))
     (allFuncs (Augment ''p'' [overlayA] [originalA])) = [mangled originalF] \<and>
   filter (\<lambda>d. FuncKey d = FuncKey overlayF)
     (allFuncs (Augment ''p'' [overlayA] [originalA])) = [overlayF]"
proof -
  have o: "overlayF \<in> set (allFuncs [overlayA])" by (simp add: scenarioA_funcs)
  have keep: "KeepOriginal overlayF" and np: "\<not> PurgeDecl (DFunc overlayF)"
    and ns: "\<not> OverrideSignature overlayF"
    by (simp_all add: KeepOriginal_def OverrideSignature_def hasDirective_def overlayF_def mkFunc_def)
  have ni: "FuncKey overlayF \<noteq> ''init''" by (simp add: scenarioA_keys)
  have once: "declaredOnce [overlayA] (FuncKey overlayF)"
    by (simp add: declaredOnce_def packageWrites_def fileWrites_def overlayA_def mkFile_def Let_def
        scenarioA_keys)
  have d0: "filter (\<lambda>d. FuncKey d = FuncKey overlayF) (allFuncs [originalA]) = [originalF]"
    by (simp add: scenarioA_funcs scenarioA_keys)
  have plain: "list_all plainName (allFuncs [overlayA] @ allFuncs [originalA])"
    by (simp add: scenarioA_funcs plainName_def FuncReceiverKey_def overlayF_def overlayInit_def
        originalF_def originalInit_def mkFunc_def)
  from keep_original_renames[OF o keep np ns ni once d0 plain, of "''p''"] o keep d0
  show ?thesis by simp
qed

lemma keptInit_funcs:
  "allFuncs [overlayKeepInit] = [keptInit]" "allFuncs [originalOnlyInit] = [originalInit]"
  by (simp_all add: allFuncs_def funcDecls_def overlayKeepInit_def originalOnlyInit_def mkFile_def
      Let_def)

theorem keep_original_on_init:
  "allFuncs [overlayKeepInit] = [keptInit] \<and> KeepOriginal keptInit \<and> FuncKey keptInit = ''init'' \<and>
   allFuncs [originalOnlyInit] = [originalInit] \<and> FuncKey originalInit = ''init'' \<and>
   allFuncs (Augment ''p'' [overlayKeepInit] [originalOnlyInit]) = [keptInit, originalInit]"
proof -
  have k: "KeepOriginal keptInit" "\<not> OverrideSignature keptInit" "\<not> PurgeDecl (DFunc keptInit)"
    "FuncKey keptInit = ''init''" "FuncKey originalInit = ''init''"
    "FuncReceiverKey originalInit = []"
    by (simp_all add: keptInit_def originalInit_def mkFunc_def KeepOriginal_def
        OverrideSignature_def hasDirective_def FuncKey_def FuncReceiverKey_def)
  have r: "rewriteFunc (overridesOf [overlayKeepInit]) originalInit = Some originalInit"
    by (simp add: rewriteFunc_def overridesOf_lookup k split: option.splits)
  show ?thesis
    unfolding allFuncs_Augment keptInit_funcs
    using k r by (simp add: List.map_filter_simps)
qed

end
